theory Spec2Isabelle
  imports Main
begin

section \<open>Python strings\<close>

text \<open>
  A Python string is a sequence of Unicode code points; it is modelled as a list of
  natural numbers. The string constants of the source are written as HOL strings and
  turned into code points by \<open>lit\<close>.
\<close>

type_synonym str = "nat list"

definition lit :: "string \<Rightarrow> str" where
  "lit s = map of_char s"

text \<open>\<open>s.startswith('y')\<close>\<close>

fun startswith_y :: "str \<Rightarrow> bool" where
  "startswith_y [] = False"
| "startswith_y (c # cs) = (c = of_char CHR ''y'')"

text \<open>\<open>g in s\<close> on two strings is Python's substring test.\<close>

fun starts_with :: "str \<Rightarrow> str \<Rightarrow> bool" where
  "starts_with [] s = True"
| "starts_with (a # g) [] = False"
| "starts_with (a # g) (b # s) = (a = b \<and> starts_with g s)"

fun str_in :: "str \<Rightarrow> str \<Rightarrow> bool" where
  "str_in g [] = (g = [])"
| "str_in g (b # s) = (starts_with g (b # s) \<or> str_in g s)"

section \<open>The libraries the game calls\<close>

text \<open>
  The game calls functions that are not part of its source: the string methods
  \<open>str.lower\<close>, \<open>str.isalpha\<close> and \<open>str.strip\<close>, which follow the Unicode character
  database; the text-generation service; and the console, which renders markup and
  raises \<open>MarkupError\<close> on a text whose tags do not match. They are parameters of the
  model, so that every theorem below holds whatever these functions compute.

  \<^item> \<open>generate_content prompt\<close> is \<open>Inr text\<close> when the call
    \<open>model.generate_content(prompt).text\<close> returns \<open>text\<close>, and \<open>Inl message\<close> when it
    raises an exception \<open>e\<close> with \<open>str(e) = message\<close>.
  \<^item> \<open>console_print text\<close> is true when \<open>console.print(text)\<close> prints and false when it
    raises.
\<close>

record library =
  lower :: "str \<Rightarrow> str"
  isalpha :: "str \<Rightarrow> bool"
  strip :: "str \<Rightarrow> str"
  generate_content :: "str \<Rightarrow> str + str"
  console_print :: "str \<Rightarrow> bool"

datatype error = MarkupError

section \<open>Difficulty and lives\<close>

text \<open>\<open>get_lives_for_difficulty\<close>: a dictionary lookup with default 5.\<close>

definition lives_dict :: "(str \<times> int) list" where
  "lives_dict =
     [(lit ''easy'', 7), (lit ''medium'', 5), (lit ''hard'', 3), (lit ''custom'', 6)]"

definition get_lives_for_difficulty :: "str \<Rightarrow> int" where
  "get_lives_for_difficulty difficulty =
     (case map_of lives_dict difficulty of Some n \<Rightarrow> n | None \<Rightarrow> 5)"

section \<open>Hints\<close>

text \<open>
  \<open>generate_hint\<close> builds a prompt, calls the text-generation service and strips the
  answer. An exception raised inside the \<open>try\<close> block is caught; the handler prints the
  message of the exception through the console and then returns the fixed fallback
  string. The handler's print is outside the \<open>try\<close> block: when it raises, the exception
  leaves \<open>generate_hint\<close>.
\<close>

definition hint_prompt :: "str \<Rightarrow> str" where
  "hint_prompt secretWord =
     lit ''Provide a helpful hint for the word '' @ lit [CHR 0x27] @ secretWord @
     lit [CHR 0x27] @
     lit '' without giving away the full word. The hint could be the starting letter, a synonym, a simple definition or a related word. Create the hint without using the original word in the hint.''"

definition fallback_hint :: str where
  "fallback_hint = lit ''This word has something to do with its definition.''"

definition error_markup :: "str \<Rightarrow> str" where
  "error_markup message = lit ''[error]Error generating hint: '' @ message @ lit ''[/error]''"

definition generate_hint :: "library \<Rightarrow> str \<Rightarrow> error + str" where
  "generate_hint L secretWord =
     (case generate_content L (hint_prompt secretWord) of
        Inr response \<Rightarrow> Inr (strip L response)
      | Inl message \<Rightarrow>
          if console_print L (error_markup message) then Inr fallback_hint
          else Inl MarkupError)"

section \<open>The state of a round\<close>

text \<open>The local variables of \<open>hangman\<close> that the main loop reads and writes.\<close>

record game =
  secretWord :: str
  guessedWord :: str
  lives :: int
  maxLives :: int
  guessedLetters :: "str set"
  score :: int
  last_hint_lives :: int
  hints_used :: int

definition max_hints :: int where
  "max_hints = 3"

text \<open>The initialisation between the difficulty menu and the main loop.\<close>

definition init_game :: "str \<Rightarrow> str \<Rightarrow> game" where
  "init_game word difficulty =
     \<lparr> secretWord = word,
       guessedWord = replicate (length word) (of_char CHR ''_''),
       lives = get_lives_for_difficulty difficulty,
       maxLives = get_lives_for_difficulty difficulty,
       guessedLetters = {},
       score = 100,
       last_hint_lives = get_lives_for_difficulty difficulty,
       hints_used = 0 \<rparr>"

text \<open>The loop condition \<open>lives > 0 and guessedWord != secretWord\<close>.\<close>

definition loop_cond :: "game \<Rightarrow> bool" where
  "loop_cond st = (lives st > 0 \<and> guessedWord st \<noteq> secretWord st)"

text \<open>
  What the player sees of a turn: the hint offer, the hint text, and for each processed
  guess the branch of the loop body that handled it.
\<close>

datatype event = CorrectWord | WrongWord | InvalidInput | DuplicateLetter
  | CorrectLetter | WrongLetter

datatype printed = HintOffer | HintShown str | Guessed str event

subsection \<open>The hint offer\<close>

definition hint_due :: "game \<Rightarrow> bool" where
  "hint_due st = (last_hint_lives st - lives st \<ge> 2 \<and> hints_used st < max_hints)"

text \<open>
  The body of the hint block for an answer that is not the exit token: the penalty when
  the answer starts with \<open>y\<close>, then the reset of \<open>last_hint_lives\<close>.
\<close>

definition answer_hint :: "game \<Rightarrow> str \<Rightarrow> game" where
  "answer_hint st hint_choice =
     (let st1 = (if startswith_y hint_choice
                 then st\<lparr>hints_used := hints_used st + 1, score := score st - 5\<rparr>
                 else st)
      in st1\<lparr>last_hint_lives := lives st1\<rparr>)"

text \<open>The text of the call that prints the hint.\<close>

definition hint_markup :: "str \<Rightarrow> str" where
  "hint_markup hint = 10 # lit ''[bold]Hint:[/bold] '' @ hint"

datatype hint_result = HintExit | HintCrash error | HintAwait
  | HintDone game "printed list" "str list"

text \<open>
  The hint block of one turn, reading its answer from the pending input lines.
  \<open>HintAwait\<close>: the offer was printed and no line is left to read. \<open>HintCrash\<close>: an
  exception left \<open>generate_hint\<close> or the print of the hint; nothing in \<open>hangman\<close>
  catches it.
\<close>

definition hint_phase :: "library \<Rightarrow> game \<Rightarrow> str list \<Rightarrow> hint_result" where
  "hint_phase L st ins =
     (if hint_due st then
        (case ins of
           [] \<Rightarrow> HintAwait
         | x # rest \<Rightarrow>
             (let hint_choice = lower L x in
              if hint_choice = lit ''0'' then HintExit
              else if startswith_y hint_choice then
                (case generate_hint L (secretWord st) of
                   Inl err \<Rightarrow> HintCrash err
                 | Inr hint \<Rightarrow>
                     if console_print L (hint_markup hint)
                     then HintDone (answer_hint st hint_choice)
                            [HintOffer, HintShown hint] rest
                     else HintCrash MarkupError)
              else HintDone (answer_hint st hint_choice) [HintOffer] rest))
      else HintDone st [] ins)"

subsection \<open>Processing a guess\<close>

text \<open>
  The loop body from the full-word test to its end, for a lowercased guess that is not
  the exit token. The event names the branch taken; \<open>CorrectWord\<close> is the branch that
  leaves the loop with \<open>break\<close>.
\<close>

definition apply_guess :: "library \<Rightarrow> game \<Rightarrow> str \<Rightarrow> game \<times> event" where
  "apply_guess L st guess =
     (if length guess = length (secretWord st) \<and> isalpha L guess then
        (if guess = secretWord st
         then (st\<lparr>guessedWord := secretWord st, score := score st + 50\<rparr>, CorrectWord)
         else (st\<lparr>lives := lives st - 1, score := score st - 10\<rparr>, WrongWord))
      else if length guess \<noteq> 1 \<or> \<not> isalpha L guess then (st, InvalidInput)
      else if guess \<in> guessedLetters st then (st, DuplicateLetter)
      else
        (let st1 = st\<lparr>guessedLetters := insert guess (guessedLetters st)\<rparr> in
         if str_in guess (secretWord st1)
         then (st1\<lparr>guessedWord :=
                      map (\<lambda>letter. if [letter] \<in> guessedLetters st1 \<or> [letter] = guess
                                     then letter else of_char CHR ''_'')
                          (secretWord st1),
                    score := score st1 + 10\<rparr>, CorrectLetter)
         else (st1\<lparr>lives := lives st1 - 1, score := score st1 - 10\<rparr>, WrongLetter)))"

datatype guess_result = GuessExit | GuessAwait
  | GuessBreak game "printed list" | GuessNext game "printed list" "str list"

definition guess_phase :: "library \<Rightarrow> game \<Rightarrow> str list \<Rightarrow> guess_result" where
  "guess_phase L st ins =
     (case ins of
        [] \<Rightarrow> GuessAwait
      | x # rest \<Rightarrow>
          (let guess = lower L x in
           if guess = lit ''0'' then GuessExit
           else (case apply_guess L st guess of
                   (st', ev) \<Rightarrow>
                     if ev = CorrectWord then GuessBreak st' [Guessed guess ev]
                     else GuessNext st' [Guessed guess ev] rest)))"

subsection \<open>The main loop\<close>

text \<open>
  A run of the loop on the lines the player types. It stops when the loop is left
  (\<open>Ended\<close>), when the player types the exit token (\<open>Exited\<close>), when an exception leaves
  the hint block (\<open>Crashed\<close>), or when the lines are used up and the game waits at the
  hint prompt or at the guess prompt.
\<close>

datatype stop = AwaitHint | AwaitGuess | Ended

datatype result = Exited | Crashed error | Stopped stop game "printed list"

lemma hint_phase_length:
  "hint_phase L st ins = HintDone st1 out1 ins1 \<Longrightarrow> length ins1 \<le> length ins"
  by (auto simp: hint_phase_def Let_def split: if_splits list.splits sum.splits)

lemma guess_phase_length:
  "guess_phase L st ins = GuessNext st2 out2 ins2 \<Longrightarrow> length ins2 < length ins"
  by (auto simp: guess_phase_def Let_def split: if_splits list.splits prod.splits)

function play :: "library \<Rightarrow> game \<Rightarrow> printed list \<Rightarrow> str list \<Rightarrow> result" where
  "play L st log ins =
     (if loop_cond st then
        (case hint_phase L st ins of
           HintExit \<Rightarrow> Exited
         | HintCrash err \<Rightarrow> Crashed err
         | HintAwait \<Rightarrow> Stopped AwaitHint st log
         | HintDone st1 out1 ins1 \<Rightarrow>
             (case guess_phase L st1 ins1 of
                GuessExit \<Rightarrow> Exited
              | GuessAwait \<Rightarrow> Stopped AwaitGuess st1 (log @ out1)
              | GuessBreak st2 out2 \<Rightarrow> Stopped Ended st2 (log @ out1 @ out2)
              | GuessNext st2 out2 ins2 \<Rightarrow> play L st2 (log @ out1 @ out2) ins2))
      else Stopped Ended st log)"
  by pat_completeness auto
termination
proof (relation "measure (\<lambda>(L, st, log, ins). length ins)")
  show "wf (measure (\<lambda>(L, st, log, ins). length ins))" by simp
next
  fix L st log ins st1 out1 ins1 st2 out2 ins2
  assume "hint_phase L st ins = HintDone st1 out1 ins1"
    and "guess_phase L st1 ins1 = GuessNext st2 out2 ins2"
  then have "length ins2 < length ins"
    using hint_phase_length guess_phase_length by fastforce
  then show "((L, st2, log @ out1 @ out2, ins2), (L, st, log, ins))
      \<in> measure (\<lambda>(L, st, log, ins). length ins)" by simp
qed

declare play.simps [simp del]

subsection \<open>The end of the round\<close>

datatype outcome = Win | Loss

text \<open>The report after the loop: the test for the win comes first; a loss resets the score.\<close>

definition conclude :: "game \<Rightarrow> outcome \<times> int" where
  "conclude st =
     (if guessedWord st = secretWord st then (Win, score st) else (Loss, 0))"

datatype round_result = RoundOver outcome int | RoundExit | RoundCrash error | RoundAwait

definition play_round :: "library \<Rightarrow> str \<Rightarrow> str \<Rightarrow> str list \<Rightarrow> round_result" where
  "play_round L word difficulty ins =
     (case play L (init_game word difficulty) [] ins of
        Exited \<Rightarrow> RoundExit
      | Crashed err \<Rightarrow> RoundCrash err
      | Stopped Ended st log \<Rightarrow> (case conclude st of (oc, s) \<Rightarrow> RoundOver oc s)
      | Stopped _ st log \<Rightarrow> RoundAwait)"

subsection \<open>Resuming at the guess prompt\<close>

text \<open>
  The rest of a run from the guess prompt on: the loop body after the hint block, then
  the loop again.
\<close>

definition play_from_guess ::
    "library \<Rightarrow> game \<Rightarrow> printed list \<Rightarrow> str list \<Rightarrow> result" where
  "play_from_guess L st log ins =
     (case guess_phase L st ins of
        GuessExit \<Rightarrow> Exited
      | GuessAwait \<Rightarrow> Stopped AwaitGuess st log
      | GuessBreak st2 out2 \<Rightarrow> Stopped Ended st2 (log @ out2)
      | GuessNext st2 out2 ins2 \<Rightarrow> play L st2 (log @ out2) ins2)"

text \<open>A run continued with further input lines, from where it stopped.\<close>

definition continue_run :: "library \<Rightarrow> result \<Rightarrow> str list \<Rightarrow> result" where
  "continue_run L r extra =
     (case r of
        Exited \<Rightarrow> Exited
      | Crashed err \<Rightarrow> Crashed err
      | Stopped Ended st log \<Rightarrow> Stopped Ended st log
      | Stopped AwaitHint st log \<Rightarrow> play L st log extra
      | Stopped AwaitGuess st log \<Rightarrow> play_from_guess L st log extra)"

section \<open>The libraries on ASCII text\<close>

text \<open>
  On ASCII text the string methods act as follows: the letters are \<open>A-Z\<close> and \<open>a-z\<close>,
  lowercasing adds 32 to the capital letters, and the whitespace characters are 9 to 13
  and 28 to 32. The examples below run the game on ASCII input with these functions.
\<close>

definition ascii_lower :: "str \<Rightarrow> str" where
  "ascii_lower s = map (\<lambda>c. if 65 \<le> c \<and> c \<le> 90 then c + 32 else c) s"

definition ascii_isalpha :: "str \<Rightarrow> bool" where
  "ascii_isalpha s =
     (s \<noteq> [] \<and> list_all (\<lambda>c. (65 \<le> c \<and> c \<le> 90) \<or> (97 \<le> c \<and> c \<le> 122)) s)"

definition ascii_space :: "nat \<Rightarrow> bool" where
  "ascii_space c = ((9 \<le> c \<and> c \<le> 13) \<or> (28 \<le> c \<and> c \<le> 32))"

definition ascii_strip :: "str \<Rightarrow> str" where
  "ascii_strip s = rev (dropWhile ascii_space (rev (dropWhile ascii_space s)))"

text \<open>
  The console renders its text as markup. A tag is an opening bracket, a first
  character among \<open>a-z # / @\<close>, and then the characters up to the next closing bracket,
  none of them an opening bracket. A tag whose name starts with \<open>/\<close> closes the most
  recent open tag of that name, or the most recent open tag when the name is empty, and
  the console raises \<open>MarkupError\<close> when there is no such open tag. This is the rule
  for texts without backslashes, tag names being compared as they are written.
\<close>

definition tag_start :: "nat \<Rightarrow> bool" where
  "tag_start c =
     ((97 \<le> c \<and> c \<le> 122) \<or> c = of_char CHR ''#'' \<or> c = of_char CHR ''/'' \<or>
      c = of_char CHR ''@'')"

definition close_tag :: "str \<Rightarrow> str list \<Rightarrow> str list option" where
  "close_tag name open_tags =
     (if name = [] then (case open_tags of [] \<Rightarrow> None | t # ts \<Rightarrow> Some ts)
      else if name \<in> set open_tags then Some (remove1 name open_tags)
      else None)"

definition apply_tag :: "str \<Rightarrow> str list \<Rightarrow> str list option" where
  "apply_tag tag open_tags =
     (let name = takeWhile (\<lambda>c. c \<noteq> of_char CHR ''='') tag in
      if name \<noteq> [] \<and> hd name = of_char CHR ''/''
      then close_tag (ascii_strip (tl name)) open_tags
      else Some (name # open_tags))"

text \<open>
  The scan of a text: the open tags, most recent first, and the characters read since
  an opening bracket that may still start a tag (in reverse order).
\<close>

fun scan_markup :: "str list \<Rightarrow> str option \<Rightarrow> str \<Rightarrow> bool" where
  "scan_markup open_tags pending [] = True"
| "scan_markup open_tags None (c # cs) =
     (if c = of_char CHR ''[''
      then scan_markup open_tags (Some []) cs
      else scan_markup open_tags None cs)"
| "scan_markup open_tags (Some t) (c # cs) =
     (if c = of_char CHR ''['' then scan_markup open_tags (Some []) cs
      else if t = [] then
        (if tag_start c then scan_markup open_tags (Some [c]) cs
         else scan_markup open_tags None cs)
      else if c = of_char CHR '']'' then
        (case apply_tag (rev t) open_tags of
           None \<Rightarrow> False
         | Some open_tags' \<Rightarrow> scan_markup open_tags' None cs)
      else scan_markup open_tags (Some (c # t)) cs)"

definition markup_ok :: "str \<Rightarrow> bool" where
  "markup_ok s = scan_markup [] None s"

text \<open>The ASCII library with a given text-generation service.\<close>

definition ascii_library :: "(str \<Rightarrow> str + str) \<Rightarrow> library" where
  "ascii_library service =
     \<lparr> lower = ascii_lower, isalpha = ascii_isalpha, strip = ascii_strip,
       generate_content = service, console_print = markup_ok \<rparr>"

text \<open>A service whose every call raises, with a plain message and with a bracketed one.\<close>

definition failing_provider :: "str \<Rightarrow> str + str" where
  "failing_provider prompt = Inl (lit ''503 Service Unavailable'')"

definition tagged_failure :: "str \<Rightarrow> str + str" where
  "tagged_failure prompt = Inl (lit ''[/INST]'')"

section \<open>Invariants of a round\<close>

text \<open>Lives stay non-negative, and a revealed word comes with a life left.\<close>

definition lives_ok :: "game \<Rightarrow> bool" where
  "lives_ok s = (0 \<le> lives s \<and> (guessedWord s = secretWord s \<longrightarrow> 0 < lives s))"

text \<open>
  The guessed letters are single alphabetic characters, and none is recorded for a
  one-letter secret word.
\<close>

definition letters_ok :: "library \<Rightarrow> game \<Rightarrow> bool" where
  "letters_ok L s =
     (\<forall>g \<in> guessedLetters s. length g = 1 \<and> isalpha L g \<and> length (secretWord s) \<noteq> 1)"

text \<open>
  The number of revealed positions, as the progress bar of the loop computes it:
  \<open>len(secretWord) - guessedWord.count('_')\<close>.
\<close>

definition revealed :: "game \<Rightarrow> int" where
  "revealed st =
     int (length (secretWord st)) - int (count_list (guessedWord st) (of_char CHR ''_''))"

text \<open>The pattern that shows the letters of a word that are among the guessed letters.\<close>

definition reveal :: "str set \<Rightarrow> str \<Rightarrow> str" where
  "reveal letters word = map (\<lambda>c. if [c] \<in> letters then c else of_char CHR ''_'') word"

text \<open>
  The pattern is the secret word once the word itself has been guessed, and before that
  the mask of the guessed letters; the correct letter guesses of the log are the guessed
  letters that occur in the secret word.
\<close>

definition pattern_ok :: "game \<Rightarrow> printed list \<Rightarrow> bool" where
  "pattern_ok s l =
     (guessedWord s =
        (if Guessed (secretWord s) CorrectWord \<in> set l then secretWord s
         else reveal (guessedLetters s) (secretWord s)) \<and>
      (\<forall>c. Guessed [c] CorrectLetter \<in> set l \<longleftrightarrow>
           [c] \<in> guessedLetters s \<and> c \<in> set (secretWord s)))"

section \<open>Facts about the string operations\<close>

lemma starts_with_single: "starts_with [c] s = (\<exists>t. s = c # t)"
  by (cases s) auto

lemma str_in_single: "str_in [c] s = (c \<in> set s)"
  by (induction s) (auto simp: starts_with_single)

lemma lives_positive: "get_lives_for_difficulty d > 0"
  by (simp add: get_lives_for_difficulty_def lives_dict_def)

lemma lit_eq_iff [simp]: "(lit a = lit b) = (a = b)"
  by (simp add: lit_def inj_map_eq_map inj_of_char)

lemma markup_ok_plain_error: "markup_ok (error_markup (lit ''503 Service Unavailable''))"
  by code_simp

lemma markup_ok_fallback: "markup_ok (hint_markup fallback_hint)"
  by code_simp

lemma markup_tagged_error: "\<not> markup_ok (error_markup (lit ''[/INST]''))"
  by code_simp

lemma ascii_library_fields [simp]:
  "lower (ascii_library service) = ascii_lower"
  "isalpha (ascii_library service) = ascii_isalpha"
  "strip (ascii_library service) = ascii_strip"
  "generate_content (ascii_library service) = service"
  "console_print (ascii_library service) = markup_ok"
  by (simp_all add: ascii_library_def)

lemma generate_hint_fallback:
  "generate_content L (hint_prompt w) = Inl message \<Longrightarrow>
   console_print L (error_markup message) \<Longrightarrow> generate_hint L w = Inr fallback_hint"
  by (simp add: generate_hint_def)

lemma generate_hint_failing [simp]:
  "generate_hint (ascii_library failing_provider) w = Inr fallback_hint"
  by (rule generate_hint_fallback [where message = "lit ''503 Service Unavailable''"])
     (simp_all add: failing_provider_def markup_ok_plain_error)

lemma print_fallback [simp]: "markup_ok (hint_markup fallback_hint)"
  by (rule markup_ok_fallback)

lemma startswith_y_not_exit: "startswith_y s \<Longrightarrow> s \<noteq> lit ''0''"
  by (cases s) (auto simp: lit_def)

lemmas eval_defs = init_game_def get_lives_for_difficulty_def lives_dict_def loop_cond_def
  hint_phase_def hint_due_def max_hints_def answer_hint_def guess_phase_def apply_guess_def
  ascii_lower_def ascii_isalpha_def lit_def conclude_def play_round_def Let_def

section \<open>Starting lives\<close>

text \<open>
  C8. The starting life count is 7 for easy, 5 for medium, 3 for hard and 6 for custom,
  and 5 for every other difficulty value.
\<close>

theorem lives_for_difficulty:
  "get_lives_for_difficulty (lit ''easy'') = 7 \<and>
   get_lives_for_difficulty (lit ''medium'') = 5 \<and>
   get_lives_for_difficulty (lit ''hard'') = 3 \<and>
   get_lives_for_difficulty (lit ''custom'') = 6 \<and>
   (\<forall>d. d \<notin> {lit ''easy'', lit ''medium'', lit ''hard'', lit ''custom''} \<longrightarrow>
        get_lives_for_difficulty d = 5)"
  by (simp add: get_lives_for_difficulty_def lives_dict_def)

theorem lives_for_difficulty_witness:
  "lit ''expert'' \<notin> {lit ''easy'', lit ''medium'', lit ''hard'', lit ''custom''} \<and>
   get_lives_for_difficulty (lit ''expert'') = 5"
proof -
  have h: "lit ''expert'' \<notin> {lit ''easy'', lit ''medium'', lit ''hard'', lit ''custom''}"
    by simp
  have g: "get_lives_for_difficulty (lit ''expert'') = 5"
    by (rule lives_for_difficulty [THEN conjunct2, THEN conjunct2, THEN conjunct2,
          THEN conjunct2, THEN spec, THEN mp, OF h])
  from h g show ?thesis by (rule conjI)
qed

section \<open>Facts about one turn\<close>

lemma apply_guess_word:
  assumes "length guess = length (secretWord st)" "isalpha L guess"
  shows "apply_guess L st guess =
     (if guess = secretWord st
      then (st\<lparr>guessedWord := secretWord st, score := score st + 50\<rparr>, CorrectWord)
      else (st\<lparr>lives := lives st - 1, score := score st - 10\<rparr>, WrongWord))"
  using assms by (simp add: apply_guess_def)

lemma play_first_turn:
  "loop_cond st \<Longrightarrow> \<not> hint_due st \<Longrightarrow>
   play L st log ins =
     (case guess_phase L st ins of
        GuessExit \<Rightarrow> Exited
      | GuessAwait \<Rightarrow> Stopped AwaitGuess st log
      | GuessBreak st2 out2 \<Rightarrow> Stopped Ended st2 (log @ out2)
      | GuessNext st2 out2 ins2 \<Rightarrow> play L st2 (log @ out2) ins2)"
  by (subst play.simps) (simp add: hint_phase_def split: guess_result.splits)


lemma init_loop_cond:
  "loop_cond (init_game word difficulty)
     = (word \<noteq> replicate (length word) (of_char CHR ''_''))"
  using lives_positive [of difficulty] by (auto simp: loop_cond_def init_game_def)

lemma guess_phase_word:
  assumes "length (lower L x) = length (secretWord st)" and "isalpha L (lower L x)"
    and "lower L x \<noteq> lit ''0''"
  shows "guess_phase L st (x # ins) =
      (if lower L x = secretWord st
       then GuessBreak (st\<lparr>guessedWord := secretWord st, score := score st + 50\<rparr>)
              [Guessed (lower L x) CorrectWord]
       else GuessNext (st\<lparr>lives := lives st - 1, score := score st - 10\<rparr>)
              [Guessed (lower L x) WrongWord] ins)"
  using assms(3) by (simp add: guess_phase_def Let_def apply_guess_word [OF assms(1,2)])

section \<open>Full-word guesses\<close>





section \<open>Single-letter guesses\<close>




section \<open>Repeated wrong words\<close>

lemma apply_guess_duplicate:
  "apply_guess L s g = (s', DuplicateLetter) \<Longrightarrow>
     length g = 1 \<and> length (secretWord s) \<noteq> 1 \<and> g \<in> guessedLetters s \<and> s' = s"
  by (auto simp: apply_guess_def Let_def split: if_splits)

lemma guess_phase_wrong_word:
  assumes "length (lower L x) = length (secretWord st)" and "isalpha L (lower L x)"
    and "lower L x \<noteq> lit ''0''" and "lower L x \<noteq> secretWord st"
  shows "guess_phase L st (x # ins)
           = GuessNext (st\<lparr>lives := lives st - 1, score := score st - 10\<rparr>)
               [Guessed (lower L x) WrongWord] ins"
  using assms(4) by (simp add: guess_phase_word [OF assms(1,2,3)])

text \<open>
  C10. A wrong full-word guess (the lowercased input has the secret word's length, is
  alphabetic, and is neither the secret word nor the exit token) changes only the lives
  and the score: nothing
  records it, so the same wrong word submitted again costs one more life and 10 more
  points (on two successive turns of the loop when no hint offer comes between them).
  The duplicate branch is reached only by a one-character guess that is in the guessed
  letters.
\<close>

theorem wrong_word_not_recorded:
  assumes "length (lower L x) = length (secretWord st)" and "isalpha L (lower L x)"
    and "lower L x \<noteq> lit ''0''" and "lower L x \<noteq> secretWord st"
  shows "guess_phase L st (x # x # ins)
           = GuessNext (st\<lparr>lives := lives st - 1, score := score st - 10\<rparr>)
               [Guessed (lower L x) WrongWord] (x # ins) \<and>
         guess_phase L (st\<lparr>lives := lives st - 1, score := score st - 10\<rparr>) (x # ins)
           = GuessNext (st\<lparr>lives := lives st - 2, score := score st - 20\<rparr>)
               [Guessed (lower L x) WrongWord] ins \<and>
         (loop_cond st \<longrightarrow> 1 < lives st \<longrightarrow> last_hint_lives st \<le> lives st \<longrightarrow>
            play L st log (x # x # ins)
              = play L (st\<lparr>lives := lives st - 2, score := score st - 20\<rparr>)
                  (log @ [Guessed (lower L x) WrongWord, Guessed (lower L x) WrongWord]) ins) \<and>
         (\<forall>s g s'. apply_guess L s g = (s', DuplicateLetter) \<longrightarrow>
            length g = 1 \<and> g \<in> guessedLetters s \<and> s' = s)"
proof -
  let ?st1 = "st\<lparr>lives := lives st - 1, score := score st - 10\<rparr>"
  let ?st2 = "st\<lparr>lives := lives st - 2, score := score st - 20\<rparr>"
  have g1: "guess_phase L st (x # x # ins)
           = GuessNext ?st1 [Guessed (lower L x) WrongWord] (x # ins)"
    using assms by (rule guess_phase_wrong_word)
  have l1: "length (lower L x) = length (secretWord ?st1)" using assms(1) by simp
  have n1: "lower L x \<noteq> secretWord ?st1" using assms(4) by simp
  have "guess_phase L ?st1 (x # ins)
           = GuessNext (?st1\<lparr>lives := lives ?st1 - 1, score := score ?st1 - 10\<rparr>)
               [Guessed (lower L x) WrongWord] ins"
    using l1 assms(2,3) n1 by (rule guess_phase_wrong_word)
  then have g2: "guess_phase L ?st1 (x # ins)
           = GuessNext ?st2 [Guessed (lower L x) WrongWord] ins"
    by simp
  have p: "play L st log (x # x # ins)
              = play L ?st2
                  (log @ [Guessed (lower L x) WrongWord, Guessed (lower L x) WrongWord]) ins"
    if lc: "loop_cond st" and lv: "1 < lives st" and lh: "last_hint_lives st \<le> lives st"
  proof -
    have h0: "\<not> hint_due st" using lh by (simp add: hint_due_def)
    have lc1: "loop_cond ?st1" using lc lv by (simp add: loop_cond_def)
    have h1: "\<not> hint_due ?st1" using lh by (simp add: hint_due_def)
    have "play L st log (x # x # ins)
            = play L ?st1 (log @ [Guessed (lower L x) WrongWord]) (x # ins)"
      by (simp add: play_first_turn [OF lc h0] g1)
    also have "\<dots> = play L ?st2
                  ((log @ [Guessed (lower L x) WrongWord]) @ [Guessed (lower L x) WrongWord])
                  ins"
      by (simp add: play_first_turn [OF lc1 h1] g2)
    finally show ?thesis by simp
  qed
  have d: "\<forall>s g s'. apply_guess L s g = (s', DuplicateLetter) \<longrightarrow>
            length g = 1 \<and> g \<in> guessedLetters s \<and> s' = s"
    using apply_guess_duplicate by blast
  show ?thesis
  proof (intro conjI impI)
    show "guess_phase L st (x # x # ins)
        = GuessNext ?st1 [Guessed (lower L x) WrongWord] (x # ins)"
      by (rule g1)
    show "guess_phase L ?st1 (x # ins) = GuessNext ?st2 [Guessed (lower L x) WrongWord] ins"
      by (rule g2)
    show "play L st log (x # x # ins)
              = play L ?st2
                  (log @ [Guessed (lower L x) WrongWord, Guessed (lower L x) WrongWord]) ins"
      if "loop_cond st" "1 < lives st" "last_hint_lives st \<le> lives st"
      using that by (rule p)
    show "\<forall>s g s'. apply_guess L s g = (s', DuplicateLetter) \<longrightarrow>
            length g = 1 \<and> g \<in> guessedLetters s \<and> s' = s"
      by (rule d)
  qed
qed

theorem wrong_word_not_recorded_witness:
  "play (ascii_library failing_provider) (init_game (lit ''cat'') (lit ''hard'')) []
       [lit ''dog'', lit ''dog'']
     = Stopped AwaitHint ((init_game (lit ''cat'') (lit ''hard''))\<lparr>lives := 1, score := 80\<rparr>)
         [Guessed (lit ''dog'') WrongWord, Guessed (lit ''dog'') WrongWord] \<and>
   apply_guess (ascii_library failing_provider)
       ((init_game (lit ''cat'') (lit ''hard''))\<lparr>guessedLetters := {lit ''c''}\<rparr>) (lit ''c'')
     = ((init_game (lit ''cat'') (lit ''hard''))\<lparr>guessedLetters := {lit ''c''}\<rparr>,
        DuplicateLetter) \<and>
   length (lit ''c'') = 1"
proof -
  let ?L = "ascii_library failing_provider"
  let ?st = "init_game (lit ''cat'') (lit ''hard'')"
  let ?sd = "(init_game (lit ''cat'') (lit ''hard''))\<lparr>guessedLetters := {lit ''c''}\<rparr>"
  have sc: "score ?st = 100" and lv: "lives ?st = 3" and lh: "last_hint_lives ?st = 3"
    by (simp_all add: init_game_def get_lives_for_difficulty_def lives_dict_def)
  have e: "lower ?L (lit ''dog'') = lit ''dog''" by (simp add: ascii_lower_def lit_def)
  have l: "length (lower ?L (lit ''dog'')) = length (secretWord ?st)"
    and a: "isalpha ?L (lower ?L (lit ''dog''))"
    and z: "lower ?L (lit ''dog'') \<noteq> lit ''0''"
    and n: "lower ?L (lit ''dog'') \<noteq> secretWord ?st"
    unfolding e by (simp_all add: init_game_def ascii_isalpha_def lit_def)
  have lc: "loop_cond ?st" by (simp add: eval_defs)
  have l1: "1 < lives ?st" and l2: "last_hint_lives ?st \<le> lives ?st"
    unfolding lv lh by simp_all
  have dup: "apply_guess ?L ?sd (lit ''c'') = (?sd, DuplicateLetter)"
    by (simp add: eval_defs)
  have fin: "play ?L (?st\<lparr>lives := 1, score := 80\<rparr>)
         [Guessed (lit ''dog'') WrongWord, Guessed (lit ''dog'') WrongWord] []
       = Stopped AwaitHint (?st\<lparr>lives := 1, score := 80\<rparr>)
           [Guessed (lit ''dog'') WrongWord, Guessed (lit ''dog'') WrongWord]"
    by (subst play.simps) (simp add: eval_defs)
  note w = wrong_word_not_recorded [where st = "?st" and x = "lit ''dog''" and ins = "[]"
       and L = "?L" and log = "[]", OF l a z n]
  have "play ?L ?st [] [lit ''dog'', lit ''dog'']
     = play ?L (?st\<lparr>lives := lives ?st - 2, score := score ?st - 20\<rparr>)
         ([] @ [Guessed (lower ?L (lit ''dog'')) WrongWord,
                Guessed (lower ?L (lit ''dog'')) WrongWord]) []"
    by (rule w [THEN conjunct2, THEN conjunct2, THEN conjunct1, THEN mp, THEN mp, THEN mp,
          OF lc l1 l2])
  then have one: "play ?L ?st [] [lit ''dog'', lit ''dog'']
     = Stopped AwaitHint (?st\<lparr>lives := 1, score := 80\<rparr>)
         [Guessed (lit ''dog'') WrongWord, Guessed (lit ''dog'') WrongWord]"
    unfolding e sc lv by (simp add: fin)
  have "length (lit ''c'') = 1 \<and> lit ''c'' \<in> guessedLetters ?sd \<and> ?sd = ?sd"
    by (rule w [THEN conjunct2, THEN conjunct2, THEN conjunct2, THEN spec, THEN spec,
          THEN spec, THEN mp, OF dup])
  then have two: "length (lit ''c'') = 1" by (rule conjunct1)
  from one dup two show ?thesis by (intro conjI)
qed

section \<open>Facts about whole runs\<close>

lemma play_unfold:
  "play L st log ins =
     (if loop_cond st then
        (case hint_phase L st ins of
           HintExit \<Rightarrow> Exited
         | HintCrash err \<Rightarrow> Crashed err
         | HintAwait \<Rightarrow> Stopped AwaitHint st log
         | HintDone st1 out1 ins1 \<Rightarrow> play_from_guess L st1 (log @ out1) ins1)
      else Stopped Ended st log)"
  by (subst play.simps)
     (simp add: play_from_guess_def split: hint_result.splits guess_result.splits)

lemma hint_phase_cases:
  obtains (not_due) "\<not> hint_due st" "hint_phase L st ins = HintDone st [] ins"
  | (hawait) "hint_due st" "ins = []" "hint_phase L st ins = HintAwait"
  | (hexit) x rest where "hint_due st" "ins = x # rest" "lower L x = lit ''0''"
      "hint_phase L st ins = HintExit"
  | (hcrash) x rest err where "hint_due st" "ins = x # rest" "lower L x \<noteq> lit ''0''"
      "hint_phase L st ins = HintCrash err"
  | (answer) x rest o1 where "hint_due st" "ins = x # rest" "lower L x \<noteq> lit ''0''"
      "hint_phase L st ins = HintDone (answer_hint st (lower L x)) o1 rest"
proof (cases "hint_due st")
  case False
  then have "hint_phase L st ins = HintDone st [] ins" by (simp add: hint_phase_def)
  with False show ?thesis by (rule not_due)
next
  case due: True
  show ?thesis
  proof (cases ins)
    case Nil
    with due have "hint_phase L st ins = HintAwait" by (simp add: hint_phase_def)
    with due Nil show ?thesis by (rule hawait)
  next
    case (Cons x rest)
    show ?thesis
    proof (cases "lower L x = lit ''0''")
      case True
      with due Cons have "hint_phase L st ins = HintExit" by (simp add: hint_phase_def)
      with due Cons True show ?thesis by (rule hexit)
    next
      case ne: False
      show ?thesis
      proof (cases "hint_phase L st ins")
        case HintExit
        with due Cons ne show ?thesis
          by (simp add: hint_phase_def Let_def split: if_splits sum.splits)
      next
        case (HintCrash err)
        with due Cons ne show ?thesis by (rule hcrash)
      next
        case HintAwait
        with due Cons ne show ?thesis
          by (simp add: hint_phase_def Let_def split: if_splits sum.splits)
      next
        case (HintDone s1 o1 i1)
        with due Cons ne have "s1 = answer_hint st (lower L x)" "i1 = rest"
          by (simp_all add: hint_phase_def Let_def split: if_splits sum.splits)
        with HintDone have "hint_phase L st ins = HintDone (answer_hint st (lower L x)) o1 rest"
          by simp
        with due Cons ne show ?thesis by (rule answer)
      qed
    qed
  qed
qed

lemma guess_phase_cases:
  obtains (gawait) "ins = []" "guess_phase L st ins = GuessAwait"
  | (gexit) x rest where "ins = x # rest" "lower L x = lit ''0''"
      "guess_phase L st ins = GuessExit"
  | (gbreak) x rest where "ins = x # rest" "lower L x \<noteq> lit ''0''"
      "snd (apply_guess L st (lower L x)) = CorrectWord"
      "guess_phase L st ins = GuessBreak (fst (apply_guess L st (lower L x)))
         [Guessed (lower L x) CorrectWord]"
  | (gnext) x rest where "ins = x # rest" "lower L x \<noteq> lit ''0''"
      "snd (apply_guess L st (lower L x)) \<noteq> CorrectWord"
      "guess_phase L st ins = GuessNext (fst (apply_guess L st (lower L x)))
         [Guessed (lower L x) (snd (apply_guess L st (lower L x)))] rest"
  by (cases ins) (auto simp: guess_phase_def Let_def case_prod_beta)

lemma answer_hint_fields [simp]:
  "secretWord (answer_hint st c) = secretWord st"
  "guessedWord (answer_hint st c) = guessedWord st"
  "lives (answer_hint st c) = lives st"
  "guessedLetters (answer_hint st c) = guessedLetters st"
  "last_hint_lives (answer_hint st c) = lives st"
  by (simp_all add: answer_hint_def Let_def)

lemma answer_hint_loop_cond [simp]: "loop_cond (answer_hint st c) = loop_cond st"
  by (simp add: loop_cond_def)

lemma answer_hint_not_due [simp]: "\<not> hint_due (answer_hint st c)"
  by (simp add: hint_due_def)

lemma hint_phase_done_loop_cond:
  "hint_phase L st ins = HintDone st1 out1 ins1 \<Longrightarrow>
     loop_cond st1 = loop_cond st \<and> \<not> hint_due st1"
  by (cases rule: hint_phase_cases [where st = st and L = L and ins = ins]) auto

text \<open>An invariant of the state and the log holds wherever a run stops.\<close>

lemma play_invariant:
  assumes hint: "\<And>s l i s1 o1 i1.
      \<lbrakk>I s l; loop_cond s; hint_phase L s i = HintDone s1 o1 i1\<rbrakk> \<Longrightarrow> I s1 (l @ o1)"
    and guess: "\<And>s l g.
      \<lbrakk>I s l; loop_cond s; g \<noteq> lit ''0''\<rbrakk> \<Longrightarrow>
        I (fst (apply_guess L s g)) (l @ [Guessed g (snd (apply_guess L s g))])"
  shows "I st log \<Longrightarrow> play L st log ins = Stopped k st' log' \<Longrightarrow> I st' log'"
  using hint guess
proof (induction L st log ins rule: play.induct)
  case (1 L st log ins)
  note I0 = "1.prems"(1)
  note run = "1.prems"(2)
  note hint1 = "1.prems"(3)
  note guess1 = "1.prems"(4)
  show ?case
  proof (cases "loop_cond st")
    case False
    with I0 run show ?thesis by (simp add: play_unfold)
  next
    case lc: True
    show ?thesis
    proof (cases rule: hint_phase_cases [where st = st and L = L and ins = ins])
      case hawait
      with I0 run lc show ?thesis by (simp add: play_unfold)
    next
      case hexit
      with run lc show ?thesis by (simp add: play_unfold)
    next
      case hcrash
      with run lc show ?thesis by (simp add: play_unfold)
    next
      case not_due
      note hp = not_due(2)
      have I1: "I st (log @ [])" using I0 by simp
      have pl: "play L st log ins = play_from_guess L st (log @ []) ins"
        using lc hp by (simp add: play_unfold)
      show ?thesis
      proof (cases rule: guess_phase_cases [where st = st and L = L and ins = ins])
        case gawait
        with I0 run pl show ?thesis by (simp add: play_from_guess_def)
      next
        case gexit
        with run pl show ?thesis by (simp add: play_from_guess_def)
      next
        case (gbreak x rest)
        have "I (fst (apply_guess L st (lower L x)))
                (log @ [Guessed (lower L x) (snd (apply_guess L st (lower L x)))])"
          using I0 lc gbreak(2) by (rule guess1)
        with run pl gbreak show ?thesis by (simp add: play_from_guess_def)
      next
        case (gnext x rest)
        have I2: "I (fst (apply_guess L st (lower L x)))
                (log @ [] @ [Guessed (lower L x) (snd (apply_guess L st (lower L x)))])"
          using guess1 [OF I0 lc gnext(2)] by simp
        have "play L st log ins
            = play L (fst (apply_guess L st (lower L x)))
                (log @ [] @ [Guessed (lower L x) (snd (apply_guess L st (lower L x)))]) rest"
          using pl gnext by (simp add: play_from_guess_def)
        with run "1.IH" [OF lc hp gnext(4) I2 _ hint1 guess1] show ?thesis by simp
      qed
    next
      case (answer y rest0 o1)
      note hp = answer(4)
      let ?s1 = "answer_hint st (lower L y)"
      have I1: "I ?s1 (log @ o1)" using I0 lc hp by (rule hint1)
      have lc1: "loop_cond ?s1" using lc by simp
      have pl: "play L st log ins = play_from_guess L ?s1 (log @ o1) rest0"
        using lc hp by (simp add: play_unfold)
      show ?thesis
      proof (cases rule: guess_phase_cases [where st = ?s1 and L = L and ins = rest0])
        case gawait
        with run pl I1 show ?thesis by (simp add: play_from_guess_def)
      next
        case gexit
        with run pl show ?thesis by (simp add: play_from_guess_def)
      next
        case (gbreak x rest)
        have "I (fst (apply_guess L ?s1 (lower L x)))
                ((log @ o1) @ [Guessed (lower L x) (snd (apply_guess L ?s1 (lower L x)))])"
          using I1 lc1 gbreak(2) by (rule guess1)
        with run pl gbreak show ?thesis by (simp add: play_from_guess_def)
      next
        case (gnext x rest)
        have I2: "I (fst (apply_guess L ?s1 (lower L x)))
                (log @ o1 @ [Guessed (lower L x) (snd (apply_guess L ?s1 (lower L x)))])"
          using guess1 [OF I1 lc1 gnext(2)] by simp
        have "play L st log ins
            = play L (fst (apply_guess L ?s1 (lower L x)))
                (log @ o1 @ [Guessed (lower L x) (snd (apply_guess L ?s1 (lower L x)))]) rest"
          using pl gnext by (simp add: play_from_guess_def)
        with run "1.IH" [OF lc hp gnext(4) I2 _ hint1 guess1] show ?thesis by simp
      qed
    qed
  qed
qed

lemma apply_guess_secretWord [simp]: "secretWord (fst (apply_guess L s g)) = secretWord s"
  by (simp add: apply_guess_def Let_def)

lemma apply_guess_hints [simp]:
  "hints_used (fst (apply_guess L s g)) = hints_used s"
  "last_hint_lives (fst (apply_guess L s g)) = last_hint_lives s"
  by (simp_all add: apply_guess_def Let_def)

lemma apply_guess_CorrectWord:
  "snd (apply_guess L s g) = CorrectWord \<Longrightarrow>
     guessedWord (fst (apply_guess L s g)) = secretWord s \<and>
     lives (fst (apply_guess L s g)) = lives s"
  by (simp add: apply_guess_def Let_def split: if_splits)

lemma lives_ok_guess:
  "lives_ok s \<Longrightarrow> loop_cond s \<Longrightarrow> lives_ok (fst (apply_guess L s g))"
  by (auto simp: lives_ok_def loop_cond_def apply_guess_def Let_def)

lemma lives_ok_hint:
  "lives_ok s \<Longrightarrow> hint_phase L s i = HintDone s1 o1 i1 \<Longrightarrow> lives_ok s1"
  by (cases rule: hint_phase_cases [where st = s and L = L and ins = i])
     (auto simp: lives_ok_def)

lemma lives_ok_init: "lives_ok (init_game word difficulty)"
  using lives_positive [of difficulty] by (simp add: lives_ok_def init_game_def)

lemma play_lives_ok:
  assumes "play L (init_game word difficulty) [] ins = Stopped k st log"
  shows "lives_ok st"
proof -
  have "(\<lambda>s l. lives_ok s) st log"
  proof (rule play_invariant [where I = "\<lambda>s l. lives_ok s", OF _ _ _ assms])
    show "lives_ok (init_game word difficulty)" by (rule lives_ok_init)
  qed (auto intro: lives_ok_guess lives_ok_hint)
  then show ?thesis .
qed

text \<open>
  Where a run stops: after the loop its condition is false; at the hint prompt a hint
  is due; at the guess prompt none is.
\<close>

lemma play_stop_kind:
  "play L st log ins = Stopped k st' log' \<Longrightarrow>
     (case k of
        Ended \<Rightarrow> \<not> loop_cond st'
      | AwaitHint \<Rightarrow> loop_cond st' \<and> hint_due st'
      | AwaitGuess \<Rightarrow> loop_cond st' \<and> \<not> hint_due st')"
proof (induction L st log ins rule: play.induct)
  case (1 L st log ins)
  show ?case
  proof (cases "loop_cond st")
    case False
    with "1.prems" show ?thesis by (auto simp: play_unfold)
  next
    case lc: True
    show ?thesis
    proof (cases rule: hint_phase_cases [where st = st and L = L and ins = ins])
      case hawait
      with "1.prems" lc show ?thesis by (auto simp: play_unfold)
    next
      case hexit
      with "1.prems" lc show ?thesis by (simp add: play_unfold)
    next
      case hcrash
      with "1.prems" lc show ?thesis by (simp add: play_unfold)
    next
      case not_due
      note hp = not_due(2)
      have pl: "play L st log ins = play_from_guess L st (log @ []) ins"
        using lc hp by (simp add: play_unfold)
      show ?thesis
      proof (cases rule: guess_phase_cases [where st = st and L = L and ins = ins])
        case gawait
        with "1.prems" pl lc not_due(1) show ?thesis by (auto simp: play_from_guess_def)
      next
        case gexit
        with "1.prems" pl show ?thesis by (simp add: play_from_guess_def)
      next
        case (gbreak x rest)
        with "1.prems" pl apply_guess_CorrectWord [OF gbreak(3)] show ?thesis
          by (auto simp: play_from_guess_def loop_cond_def)
      next
        case (gnext x rest)
        have "play L st log ins
            = play L (fst (apply_guess L st (lower L x)))
                (log @ [] @ [Guessed (lower L x) (snd (apply_guess L st (lower L x)))]) rest"
          using pl gnext by (simp add: play_from_guess_def)
        with "1.prems" "1.IH" [OF lc hp gnext(4)] show ?thesis by simp
      qed
    next
      case (answer y rest0 o1)
      note hp = answer(4)
      let ?s1 = "answer_hint st (lower L y)"
      have pl: "play L st log ins = play_from_guess L ?s1 (log @ o1) rest0"
        using lc hp by (simp add: play_unfold)
      show ?thesis
      proof (cases rule: guess_phase_cases [where st = ?s1 and L = L and ins = rest0])
        case gawait
        with "1.prems" pl lc show ?thesis by (auto simp: play_from_guess_def)
      next
        case gexit
        with "1.prems" pl show ?thesis by (simp add: play_from_guess_def)
      next
        case (gbreak x rest)
        with "1.prems" pl apply_guess_CorrectWord [OF gbreak(3)] show ?thesis
          by (auto simp: play_from_guess_def loop_cond_def)
      next
        case (gnext x rest)
        have "play L st log ins
            = play L (fst (apply_guess L ?s1 (lower L x)))
                (log @ o1 @ [Guessed (lower L x) (snd (apply_guess L ?s1 (lower L x)))]) rest"
          using pl gnext by (simp add: play_from_guess_def)
        with "1.prems" "1.IH" [OF lc hp gnext(4)] show ?thesis by simp
      qed
    qed
  qed
qed

lemma play_ended_not_loop_cond:
  "play L st log ins = Stopped Ended st' log' \<Longrightarrow> \<not> loop_cond st'"
  by (drule play_stop_kind) simp

lemma play_await_guess:
  "play L st log ins = Stopped AwaitGuess st' log' \<Longrightarrow> loop_cond st' \<and> \<not> hint_due st'"
  by (drule play_stop_kind) simp

lemma play_await_hint:
  "play L st log ins = Stopped AwaitHint st' log' \<Longrightarrow> loop_cond st' \<and> hint_due st'"
  by (drule play_stop_kind) simp

lemma play_round_ended:
  "play L (init_game word difficulty) [] ins = Stopped Ended st log \<Longrightarrow>
     play_round L word difficulty ins = RoundOver (fst (conclude st)) (snd (conclude st))"
  by (simp add: play_round_def case_prod_beta)

lemma play_round_over:
  "play_round L word difficulty ins = RoundOver oc s \<Longrightarrow>
     \<exists>st log. play L (init_game word difficulty) [] ins = Stopped Ended st log \<and>
       conclude st = (oc, s)"
  by (auto simp: play_round_def split: result.splits stop.splits prod.splits)

section \<open>The end of a round\<close>

text \<open>
  C1. When the loop of a round is left, the round is reported won if and only if the
  pattern equals the secret word, and lost if and only if the lives are at 0; the two
  never hold together, the test for the win being made first.
\<close>

theorem round_end:
  assumes "play L (init_game word difficulty) [] ins = Stopped Ended st log"
  shows "(fst (conclude st) = Win \<longleftrightarrow> guessedWord st = secretWord st) \<and>
         (fst (conclude st) = Loss \<longleftrightarrow> lives st = 0) \<and>
         \<not> (guessedWord st = secretWord st \<and> lives st = 0) \<and>
         play_round L word difficulty ins
           = RoundOver (if guessedWord st = secretWord st then Win else Loss)
               (snd (conclude st))"
proof -
  have ok: "lives_ok st" using assms by (rule play_lives_ok)
  have nl: "\<not> loop_cond st" using assms by (rule play_ended_not_loop_cond)
  have a: "guessedWord st = secretWord st \<longleftrightarrow> lives st \<noteq> 0"
    using ok nl by (auto simp: lives_ok_def loop_cond_def)
  have r: "play_round L word difficulty ins
           = RoundOver (fst (conclude st)) (snd (conclude st))"
    using assms by (rule play_round_ended)
  show ?thesis using a unfolding r by (simp add: conclude_def)
qed

theorem round_end_witness:
  "play (ascii_library failing_provider) (init_game (lit ''cat'') (lit ''hard'')) []
       [lit ''c'', lit ''z'', lit ''a'', lit ''t'']
     = Stopped Ended
         ((init_game (lit ''cat'') (lit ''hard''))
            \<lparr>guessedWord := lit ''cat'', lives := 2,
             guessedLetters := {lit ''t'', lit ''a'', lit ''z'', lit ''c''}, score := 120\<rparr>)
         [Guessed (lit ''c'') CorrectLetter, Guessed (lit ''z'') WrongLetter,
          Guessed (lit ''a'') CorrectLetter, Guessed (lit ''t'') CorrectLetter] \<and>
   play_round (ascii_library failing_provider) (lit ''cat'') (lit ''hard'')
       [lit ''c'', lit ''z'', lit ''a'', lit ''t''] = RoundOver Win 120 \<and>
   play (ascii_library failing_provider) (init_game (lit ''cat'') (lit ''hard'')) []
       [lit ''x'', lit ''y'', lit ''n'', lit ''z'']
     = Stopped Ended
         ((init_game (lit ''cat'') (lit ''hard''))
            \<lparr>lives := 0, guessedLetters := {lit ''z'', lit ''y'', lit ''x''}, score := 70,
             last_hint_lives := 1\<rparr>)
         [Guessed (lit ''x'') WrongLetter, Guessed (lit ''y'') WrongLetter, HintOffer,
          Guessed (lit ''z'') WrongLetter] \<and>
   play_round (ascii_library failing_provider) (lit ''cat'') (lit ''hard'')
       [lit ''x'', lit ''y'', lit ''n'', lit ''z''] = RoundOver Loss 0"
proof -
  let ?L = "ascii_library failing_provider"
  let ?w = "(init_game (lit ''cat'') (lit ''hard''))
            \<lparr>guessedWord := lit ''cat'', lives := 2,
             guessedLetters := {lit ''t'', lit ''a'', lit ''z'', lit ''c''}, score := 120\<rparr>"
  let ?l = "(init_game (lit ''cat'') (lit ''hard''))
            \<lparr>lives := 0, guessedLetters := {lit ''z'', lit ''y'', lit ''x''}, score := 70,
             last_hint_lives := 1\<rparr>"
  have w: "play ?L (init_game (lit ''cat'') (lit ''hard'')) []
       [lit ''c'', lit ''z'', lit ''a'', lit ''t'']
     = Stopped Ended ?w
         [Guessed (lit ''c'') CorrectLetter, Guessed (lit ''z'') WrongLetter,
          Guessed (lit ''a'') CorrectLetter, Guessed (lit ''t'') CorrectLetter]"
    by (simp add: play.simps eval_defs)
  have l: "play ?L (init_game (lit ''cat'') (lit ''hard'')) []
       [lit ''x'', lit ''y'', lit ''n'', lit ''z'']
     = Stopped Ended ?l
         [Guessed (lit ''x'') WrongLetter, Guessed (lit ''y'') WrongLetter, HintOffer,
          Guessed (lit ''z'') WrongLetter]"
    by (simp add: play.simps eval_defs)
  have cw: "snd (conclude ?w) = 120" "guessedWord ?w = secretWord ?w"
    by (simp_all add: conclude_def init_game_def)
  have cl: "snd (conclude ?l) = 0" "guessedWord ?l \<noteq> secretWord ?l"
    by (simp_all add: conclude_def init_game_def lit_def)
  from round_end [OF w] round_end [OF l] w l show ?thesis
    unfolding cw cl by simp
qed

text \<open>
  C7. When a round ends with the lives at 0, the reported score is exactly 0, whatever
  score the guesses and hints have left in the state; and every reported loss comes
  with the score 0.
\<close>

theorem loss_reports_zero:
  assumes "play L (init_game word difficulty) [] ins = Stopped Ended st log"
  shows "(lives st = 0 \<longrightarrow> play_round L word difficulty ins = RoundOver Loss 0) \<and>
         (play_round L word difficulty ins = RoundOver Loss s \<longrightarrow> s = 0 \<and> lives st = 0)"
proof -
  have ok: "lives_ok st" using assms by (rule play_lives_ok)
  have nl: "\<not> loop_cond st" using assms by (rule play_ended_not_loop_cond)
  have a: "guessedWord st = secretWord st \<longleftrightarrow> lives st \<noteq> 0"
    using ok nl by (auto simp: lives_ok_def loop_cond_def)
  have r: "play_round L word difficulty ins
           = RoundOver (fst (conclude st)) (snd (conclude st))"
    using assms by (rule play_round_ended)
  show ?thesis using a unfolding r by (auto simp: conclude_def)
qed

theorem loss_reports_zero_witness:
  "play (ascii_library failing_provider) (init_game (lit ''cat'') (lit ''hard'')) []
       [lit ''dog'', lit ''dog'', lit ''y'', lit ''dog'']
     = Stopped Ended
         ((init_game (lit ''cat'') (lit ''hard''))
            \<lparr>lives := 0, score := 65, last_hint_lives := 1, hints_used := 1\<rparr>)
         [Guessed (lit ''dog'') WrongWord, Guessed (lit ''dog'') WrongWord, HintOffer,
          HintShown fallback_hint, Guessed (lit ''dog'') WrongWord] \<and>
   play_round (ascii_library failing_provider) (lit ''cat'') (lit ''hard'')
       [lit ''dog'', lit ''dog'', lit ''y'', lit ''dog'']
     = RoundOver Loss 0"
proof -
  let ?L = "ascii_library failing_provider"
  let ?l = "(init_game (lit ''cat'') (lit ''hard''))
            \<lparr>lives := 0, score := 65, last_hint_lives := 1, hints_used := 1\<rparr>"
  have l: "play ?L (init_game (lit ''cat'') (lit ''hard'')) []
             [lit ''dog'', lit ''dog'', lit ''y'', lit ''dog'']
     = Stopped Ended ?l
         [Guessed (lit ''dog'') WrongWord, Guessed (lit ''dog'') WrongWord, HintOffer,
          HintShown fallback_hint, Guessed (lit ''dog'') WrongWord]"
    by (simp add: play.simps eval_defs)
  have z: "lives ?l = 0" by simp
  from loss_reports_zero [OF l, of 0] z l show ?thesis by simp
qed

lemma hints_ok_guess:
  "hints_used s \<le> 3 \<Longrightarrow> hints_used (fst (apply_guess L s g)) \<le> 3"
  by simp

lemma hints_ok_hint:
  "hints_used s \<le> 3 \<Longrightarrow> hint_phase L s i = HintDone s1 o1 i1 \<Longrightarrow> hints_used s1 \<le> 3"
  by (cases rule: hint_phase_cases [where st = s and L = L and ins = i])
     (auto simp: answer_hint_def hint_due_def max_hints_def Let_def)

lemma play_hints_ok:
  assumes "play L (init_game word difficulty) [] ins = Stopped k st log"
  shows "hints_used st \<le> 3"
proof -
  have "(\<lambda>s l. hints_used s \<le> 3) st log"
  proof (rule play_invariant [where I = "\<lambda>s l. hints_used s \<le> 3", OF _ _ _ assms])
    show "hints_used (init_game word difficulty) \<le> 3" by (simp add: init_game_def)
  qed (auto intro: hints_ok_hint)
  then show ?thesis .
qed

section \<open>The hint offer\<close>

text \<open>
  C5. On every turn a hint is offered if and only if \<open>last_hint_lives - lives \<ge> 2\<close> and
  \<open>hints_used < 3\<close>; without an offer the hint block reads nothing and leaves the state
  as it is. An accepted offer, once the hint is obtained and shown, adds 1 to
  \<open>hints_used\<close> and takes exactly 5 from the score (when \<open>generate_hint\<close> or the print of
  the hint raises, the exception ends the run instead); a declined offer changes
  neither, and both set \<open>last_hint_lives\<close> to the current lives. In a round \<open>hints_used\<close>
  never exceeds 3.
\<close>

theorem hint_policy:
  "(hint_due st \<longleftrightarrow> 2 \<le> last_hint_lives st - lives st \<and> hints_used st < 3) \<and>
   (\<not> hint_due st \<longrightarrow> hint_phase L st ins = HintDone st [] ins) \<and>
   (hint_due st \<longrightarrow> hint_phase L st [] = HintAwait) \<and>
   (hint_due st \<longrightarrow> startswith_y (lower L x) \<longrightarrow>
      hint_phase L st (x # ins)
        = (case generate_hint L (secretWord st) of
             Inl err \<Rightarrow> HintCrash err
           | Inr hint \<Rightarrow>
               if console_print L (hint_markup hint)
               then HintDone (st\<lparr>hints_used := hints_used st + 1, score := score st - 5,
                                  last_hint_lives := lives st\<rparr>)
                      [HintOffer, HintShown hint] ins
               else HintCrash MarkupError)) \<and>
   (hint_due st \<longrightarrow> \<not> startswith_y (lower L x) \<longrightarrow> lower L x \<noteq> lit ''0'' \<longrightarrow>
      hint_phase L st (x # ins)
        = HintDone (st\<lparr>last_hint_lives := lives st\<rparr>) [HintOffer] ins) \<and>
   (play L (init_game word difficulty) [] ins'
      = Stopped k st' log' \<longrightarrow> hints_used st' \<le> 3)"
proof (intro conjI impI)
  show "hint_due st \<longleftrightarrow> 2 \<le> last_hint_lives st - lives st \<and> hints_used st < 3"
    by (simp add: hint_due_def max_hints_def)
  show "hint_phase L st ins = HintDone st [] ins" if "\<not> hint_due st"
    using that by (simp add: hint_phase_def)
  show "hint_phase L st [] = HintAwait" if "hint_due st"
    using that by (simp add: hint_phase_def)
  show "hint_phase L st (x # ins)
        = (case generate_hint L (secretWord st) of
             Inl err \<Rightarrow> HintCrash err
           | Inr hint \<Rightarrow>
               if console_print L (hint_markup hint)
               then HintDone (st\<lparr>hints_used := hints_used st + 1, score := score st - 5,
                                  last_hint_lives := lives st\<rparr>)
                      [HintOffer, HintShown hint] ins
               else HintCrash MarkupError)"
    if "hint_due st" "startswith_y (lower L x)"
    using that startswith_y_not_exit [OF that(2)]
    by (simp add: hint_phase_def answer_hint_def Let_def split: sum.splits)
  show "hint_phase L st (x # ins) = HintDone (st\<lparr>last_hint_lives := lives st\<rparr>) [HintOffer] ins"
    if "hint_due st" "\<not> startswith_y (lower L x)" "lower L x \<noteq> lit ''0''"
    using that by (simp add: hint_phase_def answer_hint_def Let_def)
  show "hints_used st' \<le> 3"
    if "play L (init_game word difficulty) [] ins' = Stopped k st' log'"
    using that by (rule play_hints_ok)
qed

theorem hint_policy_witness:
  "hint_phase (ascii_library failing_provider) (init_game (lit ''cat'') (lit ''easy''))
       [lit ''c'']
     = HintDone (init_game (lit ''cat'') (lit ''easy'')) [] [lit ''c''] \<and>
   hint_phase (ascii_library failing_provider)
       ((init_game (lit ''cat'') (lit ''easy''))\<lparr>lives := 5\<rparr>) [] = HintAwait \<and>
   hint_phase (ascii_library failing_provider)
       ((init_game (lit ''cat'') (lit ''easy''))\<lparr>lives := 5\<rparr>) [lit ''Yes'', lit ''c'']
     = HintDone ((init_game (lit ''cat'') (lit ''easy''))
                   \<lparr>lives := 5, hints_used := 1, score := 95, last_hint_lives := 5\<rparr>)
         [HintOffer, HintShown fallback_hint] [lit ''c''] \<and>
   hint_phase (ascii_library failing_provider)
       ((init_game (lit ''cat'') (lit ''easy''))\<lparr>lives := 5\<rparr>) [lit ''no'', lit ''c'']
     = HintDone ((init_game (lit ''cat'') (lit ''easy''))\<lparr>lives := 5, last_hint_lives := 5\<rparr>)
         [HintOffer] [lit ''c''] \<and>
   play (ascii_library failing_provider) (init_game (lit ''cat'') (lit ''easy'')) []
       [lit ''x'', lit ''y'', lit ''y'', lit ''z'', lit ''w'', lit ''y'', lit ''v'', lit ''u'',
        lit ''y'']
     = Stopped AwaitGuess
         ((init_game (lit ''cat'') (lit ''easy''))
            \<lparr>lives := 1,
             guessedLetters := {lit ''u'', lit ''v'', lit ''w'', lit ''z'', lit ''y'', lit ''x''},
             score := 25, last_hint_lives := 1, hints_used := 3\<rparr>)
         [Guessed (lit ''x'') WrongLetter, Guessed (lit ''y'') WrongLetter, HintOffer,
          HintShown fallback_hint,
          Guessed (lit ''z'') WrongLetter, Guessed (lit ''w'') WrongLetter, HintOffer,
          HintShown fallback_hint,
          Guessed (lit ''v'') WrongLetter, Guessed (lit ''u'') WrongLetter, HintOffer,
          HintShown fallback_hint] \<and>
   hints_used ((init_game (lit ''cat'') (lit ''easy''))
            \<lparr>lives := 1,
             guessedLetters := {lit ''u'', lit ''v'', lit ''w'', lit ''z'', lit ''y'', lit ''x''},
             score := 25, last_hint_lives := 1, hints_used := 3\<rparr>) \<le> 3"
proof -
  let ?L = "ascii_library failing_provider"
  let ?i = "init_game (lit ''cat'') (lit ''easy'')"
  let ?d = "(init_game (lit ''cat'') (lit ''easy''))\<lparr>lives := 5\<rparr>"
  let ?e = "(init_game (lit ''cat'') (lit ''easy''))
            \<lparr>lives := 1,
             guessedLetters := {lit ''u'', lit ''v'', lit ''w'', lit ''z'', lit ''y'', lit ''x''},
             score := 25, last_hint_lives := 1, hints_used := 3\<rparr>"
  let ?log = "[Guessed (lit ''x'') WrongLetter, Guessed (lit ''y'') WrongLetter, HintOffer,
          HintShown fallback_hint,
          Guessed (lit ''z'') WrongLetter, Guessed (lit ''w'') WrongLetter, HintOffer,
          HintShown fallback_hint,
          Guessed (lit ''v'') WrongLetter, Guessed (lit ''u'') WrongLetter, HintOffer,
          HintShown fallback_hint]"
  let ?run = "[lit ''x'', lit ''y'', lit ''y'', lit ''z'', lit ''w'', lit ''y'', lit ''v'',
        lit ''u'', lit ''y'']"
  have nd: "\<not> hint_due ?i" and d: "hint_due ?d"
    by (simp_all add: hint_due_def max_hints_def init_game_def get_lives_for_difficulty_def
          lives_dict_def)
  have y: "startswith_y (lower ?L (lit ''Yes''))" by (simp add: ascii_lower_def lit_def)
  have n: "\<not> startswith_y (lower ?L (lit ''no''))" and n0: "lower ?L (lit ''no'') \<noteq> lit ''0''"
    by (simp_all add: ascii_lower_def lit_def)
  have f: "hints_used ?d = 0" "score ?d = 100" "lives ?d = 5"
    by (simp_all add: init_game_def)
  have r: "play ?L ?i [] ?run = Stopped AwaitGuess ?e ?log"
    by (simp add: play.simps eval_defs)
  note h1 = hint_policy [where st = "?i" and L = "?L" and ins = "[lit ''c'']"]
  note h2 = hint_policy [where st = "?d" and L = "?L" and ins = "[lit ''c'']"
      and x = "lit ''Yes''"]
  note h3 = hint_policy [where st = "?d" and L = "?L" and ins = "[lit ''c'']"
      and x = "lit ''no''" and word = "lit ''cat''" and difficulty = "lit ''easy''"
      and ins' = "?run" and k = AwaitGuess and st' = "?e" and log' = "?log"]
  have a: "hint_phase ?L ?i [lit ''c''] = HintDone ?i [] [lit ''c'']"
    by (rule h1 [THEN conjunct2, THEN conjunct1, THEN mp, OF nd])
  have b: "hint_phase ?L ?d [] = HintAwait"
    by (rule h2 [THEN conjunct2, THEN conjunct2, THEN conjunct1, THEN mp, OF d])
  note c0 = h2 [THEN conjunct2, THEN conjunct2, THEN conjunct2, THEN conjunct1,
          THEN mp, THEN mp, OF d y]
  have c: "hint_phase ?L ?d [lit ''Yes'', lit ''c'']
     = HintDone (?d\<lparr>hints_used := hints_used ?d + 1, score := score ?d - 5,
                       last_hint_lives := lives ?d\<rparr>)
         [HintOffer, HintShown fallback_hint] [lit ''c'']"
    using c0 by simp
  have e: "hint_phase ?L ?d [lit ''no'', lit ''c'']
     = HintDone (?d\<lparr>last_hint_lives := lives ?d\<rparr>) [HintOffer] [lit ''c'']"
    by (rule h3 [THEN conjunct2, THEN conjunct2, THEN conjunct2, THEN conjunct2,
          THEN conjunct1, THEN mp, THEN mp, THEN mp, OF d n n0])
  have h: "hints_used ?e \<le> 3"
    by (rule h3 [THEN conjunct2, THEN conjunct2, THEN conjunct2, THEN conjunct2,
          THEN conjunct2, THEN mp, OF r])
  from a b c e r h show ?thesis unfolding f by simp
qed

section \<open>Hint failure\<close>

text \<open>
  C9. When the text-generation service fails, \<open>generate_hint\<close> returns the fixed
  fallback string only after its handler has printed the message of the exception. With
  the message \<open>503 Service Unavailable\<close> it does; with the message \<open>[/INST]\<close> the
  handler's print raises \<open>MarkupError\<close>, \<open>generate_hint\<close> fails instead of returning the
  fallback string, and a round in which the player accepts the hint offer ends with
  that exception.
\<close>

theorem hint_failure_can_crash:
  "generate_hint (ascii_library failing_provider) (lit ''cat'') = Inr fallback_hint \<and>
   generate_hint (ascii_library tagged_failure) (lit ''cat'') = Inl MarkupError \<and>
   hint_phase (ascii_library tagged_failure)
       ((init_game (lit ''cat'') (lit ''hard''))\<lparr>lives := 1\<rparr>) [lit ''y'']
     = HintCrash MarkupError \<and>
   play (ascii_library tagged_failure) (init_game (lit ''cat'') (lit ''hard'')) []
       [lit ''x'', lit ''z'', lit ''y'', lit ''c'']
     = Crashed MarkupError \<and>
   play_round (ascii_library tagged_failure) (lit ''cat'') (lit ''hard'')
       [lit ''x'', lit ''z'', lit ''y'', lit ''c'']
     = RoundCrash MarkupError"
proof -
  let ?B = "ascii_library tagged_failure"
  have g: "generate_hint ?B w = Inl MarkupError" for w
    by (simp add: generate_hint_def tagged_failure_def markup_tagged_error)
  have h: "hint_phase ?B ((init_game (lit ''cat'') (lit ''hard''))\<lparr>lives := 1\<rparr>) [lit ''y'']
     = HintCrash MarkupError"
    by (simp add: eval_defs g)
  have p: "play ?B (init_game (lit ''cat'') (lit ''hard'')) []
       [lit ''x'', lit ''z'', lit ''y'', lit ''c''] = Crashed MarkupError"
    by (simp add: play.simps eval_defs g)
  have r: "play_round ?B (lit ''cat'') (lit ''hard'')
       [lit ''x'', lit ''z'', lit ''y'', lit ''c''] = RoundCrash MarkupError"
    by (simp add: play_round_def p)
  from generate_hint_failing g h p r show ?thesis by (intro conjI)
qed

section \<open>Runs continued with further input\<close>

lemma hint_phase_append:
  "ins \<noteq> [] \<or> \<not> hint_due st \<Longrightarrow>
   hint_phase L st (ins @ extra) =
     (case hint_phase L st ins of
        HintDone s1 o1 r \<Rightarrow> HintDone s1 o1 (r @ extra)
      | other \<Rightarrow> other)"
  by (cases ins) (auto simp: hint_phase_def Let_def split: sum.splits)

lemma guess_phase_append:
  "ins \<noteq> [] \<Longrightarrow>
   guess_phase L st (ins @ extra) =
     (case guess_phase L st ins of
        GuessNext s2 o2 r \<Rightarrow> GuessNext s2 o2 (r @ extra)
      | other \<Rightarrow> other)"
  by (cases ins) (auto simp: guess_phase_def Let_def split: prod.splits)

lemma play_append:
  "play L st log (ins @ extra) = continue_run L (play L st log ins) extra"
proof (induction L st log ins rule: play.induct)
  case (1 L st log ins)
  show ?case
  proof (cases "loop_cond st")
    case False
    then show ?thesis by (simp add: play_unfold continue_run_def)
  next
    case lc: True
    show ?thesis
    proof (cases rule: hint_phase_cases [where st = st and L = L and ins = ins])
      case hawait
      with lc show ?thesis by (simp add: play_unfold [of L st log "[]"] continue_run_def)
    next
      case (hexit x rest)
      have ne: "ins \<noteq> []" using hexit(2) by simp
      have "hint_phase L st (ins @ extra) = HintExit"
        using hint_phase_append [of ins st L extra] ne hexit(4) by simp
      with hexit(4) lc show ?thesis
        by (simp add: play_unfold [of L st log ins] play_unfold [of L st log "ins @ extra"]
              continue_run_def)
    next
      case (hcrash x rest err)
      have ne: "ins \<noteq> []" using hcrash(2) by simp
      have "hint_phase L st (ins @ extra) = HintCrash err"
        using hint_phase_append [of ins st L extra] ne hcrash(4) by simp
      with hcrash(4) lc show ?thesis
        by (simp add: play_unfold [of L st log ins] play_unfold [of L st log "ins @ extra"]
              continue_run_def)
    next
      case not_due
      note hp = not_due(2)
      have hp2: "hint_phase L st (ins @ extra) = HintDone st [] (ins @ extra)"
        using not_due(1) by (simp add: hint_phase_def)
      have pl: "play L st log ins = play_from_guess L st (log @ []) ins"
        using lc hp by (simp add: play_unfold [of L st log ins])
      have pl2: "play L st log (ins @ extra) = play_from_guess L st (log @ []) (ins @ extra)"
        using lc hp2 by (simp add: play_unfold [of L st log "ins @ extra"])
      show ?thesis
      proof (cases rule: guess_phase_cases [where st = st and L = L and ins = ins])
        case gawait
        then show ?thesis unfolding pl pl2
          by (simp add: play_from_guess_def continue_run_def)
      next
        case (gexit x rest)
        have ne: "ins \<noteq> []" using gexit(1) by simp
        have "guess_phase L st (ins @ extra) = GuessExit"
          using guess_phase_append [of "ins" L "st" extra] ne gexit(3) by simp
        with gexit(3) show ?thesis unfolding pl pl2
          by (simp add: play_from_guess_def continue_run_def)
      next
        case (gbreak x rest)
        have ne: "ins \<noteq> []" using gbreak(1) by simp
        have "guess_phase L st (ins @ extra)
            = GuessBreak (fst (apply_guess L st (lower L x))) [Guessed (lower L x) CorrectWord]"
          using guess_phase_append [of "ins" L "st" extra] ne gbreak(4) by simp
        with gbreak(4) show ?thesis unfolding pl pl2
          by (simp add: play_from_guess_def continue_run_def)
      next
        case (gnext x rest)
        have ne: "ins \<noteq> []" using gnext(1) by simp
        have g2: "guess_phase L st (ins @ extra)
            = GuessNext (fst (apply_guess L st (lower L x)))
                [Guessed (lower L x) (snd (apply_guess L st (lower L x)))] (rest @ extra)"
          using guess_phase_append [of "ins" L "st" extra] ne gnext(4) by simp
        show ?thesis unfolding pl pl2
          using "1.IH" [OF lc hp gnext(4)] by (simp add: play_from_guess_def gnext(4) g2)
      qed
    next
      case (answer y rest0 o1)
      note hp = answer(4)
      let ?s1 = "answer_hint st (lower L y)"
      have ne: "ins \<noteq> []" using answer(2) by simp
      have hp2: "hint_phase L st (ins @ extra) = HintDone ?s1 o1 (rest0 @ extra)"
        using hint_phase_append [of ins st L extra] ne hp by simp
      have pl: "play L st log ins = play_from_guess L ?s1 (log @ o1) rest0"
        using lc hp by (simp add: play_unfold [of L st log ins])
      have pl2: "play L st log (ins @ extra) = play_from_guess L ?s1 (log @ o1) (rest0 @ extra)"
        using lc hp2 by (simp add: play_unfold [of L st log "ins @ extra"])
      show ?thesis
      proof (cases rule: guess_phase_cases [where st = ?s1 and L = L and ins = rest0])
        case gawait
        then show ?thesis unfolding pl pl2
          by (simp add: play_from_guess_def continue_run_def)
      next
        case (gexit x rest)
        have ne: "rest0 \<noteq> []" using gexit(1) by simp
        have "guess_phase L ?s1 (rest0 @ extra) = GuessExit"
          using guess_phase_append [of "rest0" L "?s1" extra] ne gexit(3) by simp
        with gexit(3) show ?thesis unfolding pl pl2
          by (simp add: play_from_guess_def continue_run_def)
      next
        case (gbreak x rest)
        have ne: "rest0 \<noteq> []" using gbreak(1) by simp
        have "guess_phase L ?s1 (rest0 @ extra)
            = GuessBreak (fst (apply_guess L ?s1 (lower L x))) [Guessed (lower L x) CorrectWord]"
          using guess_phase_append [of "rest0" L "?s1" extra] ne gbreak(4) by simp
        with gbreak(4) show ?thesis unfolding pl pl2
          by (simp add: play_from_guess_def continue_run_def)
      next
        case (gnext x rest)
        have ne: "rest0 \<noteq> []" using gnext(1) by simp
        have g2: "guess_phase L ?s1 (rest0 @ extra)
            = GuessNext (fst (apply_guess L ?s1 (lower L x)))
                [Guessed (lower L x) (snd (apply_guess L ?s1 (lower L x)))] (rest @ extra)"
          using guess_phase_append [of "rest0" L "?s1" extra] ne gnext(4) by simp
        show ?thesis unfolding pl pl2
          using "1.IH" [OF lc hp gnext(4)] by (simp add: play_from_guess_def gnext(4) g2)
      qed
    qed
  qed
qed

lemma letters_ok_guess: "letters_ok L s \<Longrightarrow> letters_ok L (fst (apply_guess L s g))"
  by (auto simp: letters_ok_def apply_guess_def Let_def)

lemma hint_phase_done_fields:
  assumes "hint_phase L s i = HintDone s1 o1 i1"
  shows "secretWord s1 = secretWord s" "guessedWord s1 = guessedWord s"
    "guessedLetters s1 = guessedLetters s" "lives s1 = lives s"
  using assms
  by (cases rule: hint_phase_cases [where st = s and L = L and ins = i]; simp)+

lemma letters_ok_hint:
  "letters_ok L s \<Longrightarrow> hint_phase L s i = HintDone s1 o1 i1 \<Longrightarrow> letters_ok L s1"
  by (simp add: letters_ok_def hint_phase_done_fields)

lemma play_letters_ok:
  assumes "play L (init_game word difficulty) [] ins = Stopped k st log"
  shows "letters_ok L st \<and> secretWord st = word"
proof -
  have "(\<lambda>s l. letters_ok L s \<and> secretWord s = word) st log"
  proof (rule play_invariant [where I = "\<lambda>s l. letters_ok L s \<and> secretWord s = word",
        OF _ _ _ assms])
    show "letters_ok L (init_game word difficulty) \<and> secretWord (init_game word difficulty) = word"
      by (simp add: letters_ok_def init_game_def)
  qed (auto intro: letters_ok_guess letters_ok_hint simp: hint_phase_done_fields)
  then show ?thesis .
qed

lemma apply_guess_rejected:
  assumes "letters_ok L st"
    and "(length g \<noteq> 1 \<and> length g \<noteq> length (secretWord st)) \<or> \<not> isalpha L g \<or>
         g \<in> guessedLetters st"
  shows "apply_guess L st g
           = (st, if g \<in> guessedLetters st then DuplicateLetter else InvalidInput)"
proof (cases "g \<in> guessedLetters st")
  case True
  with assms(1) have "length g = 1" "isalpha L g" "length (secretWord st) \<noteq> 1"
    by (auto simp: letters_ok_def)
  with True show ?thesis by (simp add: apply_guess_def)
next
  case False
  with assms(2) have "(length g \<noteq> 1 \<and> length g \<noteq> length (secretWord st)) \<or> \<not> isalpha L g"
    by simp
  with False show ?thesis by (auto simp: apply_guess_def)
qed

section \<open>Rejected input\<close>

text \<open>
  C6. The game waits at the guess prompt of a round. An input whose lowercase form is
  invalid (its length is neither 1 nor that of the secret word, or it is not alphabetic)
  or is one of the guessed letters is answered by the invalid-input or the
  duplicate-letter branch, and the whole state (lives, score, guessed letters, pattern
  and the rest) is what it was: the game waits at the guess prompt again in the same
  state. (The exit token is not alphabetic; it ends the game.)
\<close>

theorem rejected_input_keeps_state:
  assumes "play L (init_game word difficulty) [] ins = Stopped AwaitGuess st log"
    and "(length (lower L x) \<noteq> 1 \<and> length (lower L x) \<noteq> length word) \<or>
         \<not> isalpha L (lower L x) \<or> lower L x \<in> guessedLetters st"
  shows "apply_guess L st (lower L x)
           = (st, if lower L x \<in> guessedLetters st then DuplicateLetter else InvalidInput) \<and>
         (lower L x \<noteq> lit ''0'' \<longrightarrow>
            play L (init_game word difficulty) [] (ins @ [x])
              = Stopped AwaitGuess st
                  (log @ [Guessed (lower L x)
                            (if lower L x \<in> guessedLetters st then DuplicateLetter
                             else InvalidInput)])) \<and>
         (lower L x = lit ''0'' \<longrightarrow>
            play L (init_game word difficulty) [] (ins @ [x]) = Exited)"
proof -
  let ?g = "lower L x"
  let ?ev = "if ?g \<in> guessedLetters st then DuplicateLetter else InvalidInput"
  have inv: "letters_ok L st" and sw: "secretWord st = word"
    using play_letters_ok [OF assms(1)] by simp_all
  have ag: "apply_guess L st ?g = (st, ?ev)"
    using inv assms(2) unfolding sw [symmetric] by (rule apply_guess_rejected)
  have lc: "loop_cond st" and nd: "\<not> hint_due st"
    using play_await_guess [OF assms(1)] by simp_all
  have cont: "play L (init_game word difficulty) [] (ins @ [x]) = play_from_guess L st log [x]"
    by (simp add: play_append assms(1) continue_run_def)
  have ne: "?ev \<noteq> CorrectWord" by simp
  have again: "play L st (log @ [Guessed ?g ?ev]) []
      = Stopped AwaitGuess st (log @ [Guessed ?g ?ev])"
    using lc nd by (simp add: play_first_turn guess_phase_def)
  have one: "play_from_guess L st log [x] = Stopped AwaitGuess st (log @ [Guessed ?g ?ev])"
    if "?g \<noteq> lit ''0''"
  proof -
    have "guess_phase L st [x] = GuessNext st [Guessed ?g ?ev] []"
      using that ne by (simp add: guess_phase_def Let_def ag del: event.simps)
    then show ?thesis by (simp add: play_from_guess_def again)
  qed
  have two: "play_from_guess L st log [x] = Exited" if "?g = lit ''0''"
    using that by (simp add: play_from_guess_def guess_phase_def)
  show ?thesis
  proof (intro conjI impI)
    show "apply_guess L st ?g = (st, ?ev)" by (rule ag)
    show "play L (init_game word difficulty) [] (ins @ [x])
        = Stopped AwaitGuess st (log @ [Guessed ?g ?ev])" if "?g \<noteq> lit ''0''"
      unfolding cont using that by (rule one)
    show "play L (init_game word difficulty) [] (ins @ [x]) = Exited" if "?g = lit ''0''"
      unfolding cont using that by (rule two)
  qed
qed

theorem rejected_input_keeps_state_witness:
  "play (ascii_library failing_provider) (init_game (lit ''cat'') (lit ''hard'')) []
       [lit ''c'']
     = Stopped AwaitGuess
         ((init_game (lit ''cat'') (lit ''hard''))
            \<lparr>guessedWord := lit ''c__'', guessedLetters := {lit ''c''}, score := 110\<rparr>)
         [Guessed (lit ''c'') CorrectLetter] \<and>
   play (ascii_library failing_provider) (init_game (lit ''cat'') (lit ''hard'')) []
       [lit ''c'', lit ''C'']
     = Stopped AwaitGuess
         ((init_game (lit ''cat'') (lit ''hard''))
            \<lparr>guessedWord := lit ''c__'', guessedLetters := {lit ''c''}, score := 110\<rparr>)
         [Guessed (lit ''c'') CorrectLetter, Guessed (lit ''c'') DuplicateLetter] \<and>
   play (ascii_library failing_provider) (init_game (lit ''cat'') (lit ''hard'')) []
       [lit ''c'', lit ''c4'']
     = Stopped AwaitGuess
         ((init_game (lit ''cat'') (lit ''hard''))
            \<lparr>guessedWord := lit ''c__'', guessedLetters := {lit ''c''}, score := 110\<rparr>)
         [Guessed (lit ''c'') CorrectLetter, Guessed (lit ''c4'') InvalidInput] \<and>
   play (ascii_library failing_provider) (init_game (lit ''cat'') (lit ''hard'')) []
       [lit ''c'', lit ''0'']
     = Exited"
proof -
  let ?L = "ascii_library failing_provider"
  let ?i = "init_game (lit ''cat'') (lit ''hard'')"
  let ?st = "(init_game (lit ''cat'') (lit ''hard''))
            \<lparr>guessedWord := lit ''c__'', guessedLetters := {lit ''c''}, score := 110\<rparr>"
  let ?log = "[Guessed (lit ''c'') CorrectLetter]"
  have r: "play ?L ?i [] [lit ''c''] = Stopped AwaitGuess ?st ?log"
    by (simp add: play.simps eval_defs)
  have e1: "lower ?L (lit ''C'') = lit ''c''" and e2: "lower ?L (lit ''c4'') = lit ''c4''"
    and e3: "lower ?L (lit ''0'') = lit ''0''"
    by (simp_all add: ascii_lower_def lit_def)
  have gl: "guessedLetters ?st = {lit ''c''}" by simp
  have b1: "(length (lower ?L (lit ''C'')) \<noteq> 1 \<and>
             length (lower ?L (lit ''C'')) \<noteq> length (lit ''cat'')) \<or>
            \<not> isalpha ?L (lower ?L (lit ''C'')) \<or> lower ?L (lit ''C'') \<in> guessedLetters ?st"
    unfolding e1 gl by simp
  have b2: "(length (lower ?L (lit ''c4'')) \<noteq> 1 \<and>
             length (lower ?L (lit ''c4'')) \<noteq> length (lit ''cat'')) \<or>
            \<not> isalpha ?L (lower ?L (lit ''c4'')) \<or> lower ?L (lit ''c4'') \<in> guessedLetters ?st"
    unfolding e2 gl by (simp add: lit_def)
  have b3: "(length (lower ?L (lit ''0'')) \<noteq> 1 \<and>
             length (lower ?L (lit ''0'')) \<noteq> length (lit ''cat'')) \<or>
            \<not> isalpha ?L (lower ?L (lit ''0'')) \<or> lower ?L (lit ''0'') \<in> guessedLetters ?st"
    unfolding e3 gl by (simp add: ascii_isalpha_def lit_def)
  have n1: "lower ?L (lit ''C'') \<noteq> lit ''0''" and n2: "lower ?L (lit ''c4'') \<noteq> lit ''0''"
    unfolding e1 e2 by simp_all
  have in1: "lit ''c'' \<in> guessedLetters ?st" and in2: "lit ''c4'' \<notin> guessedLetters ?st"
    unfolding gl by simp_all
  note t1 = rejected_input_keeps_state [OF r b1, THEN conjunct2, THEN conjunct1, THEN mp, OF n1]
  note t2 = rejected_input_keeps_state [OF r b2, THEN conjunct2, THEN conjunct1, THEN mp, OF n2]
  note t3 = rejected_input_keeps_state [OF r b3, THEN conjunct2, THEN conjunct2, THEN mp, OF e3]
  have a1: "play ?L ?i [] [lit ''c'', lit ''C'']
     = Stopped AwaitGuess ?st [Guessed (lit ''c'') CorrectLetter, Guessed (lit ''c'') DuplicateLetter]"
    using t1 unfolding e1 using in1 by simp
  have a2: "play ?L ?i [] [lit ''c'', lit ''c4'']
     = Stopped AwaitGuess ?st [Guessed (lit ''c'') CorrectLetter, Guessed (lit ''c4'') InvalidInput]"
    using t2 unfolding e2 using in2 by simp
  have a3: "play ?L ?i [] [lit ''c'', lit ''0''] = Exited"
    using t3 by simp
  from r a1 a2 a3 show ?thesis by (intro conjI)
qed

section \<open>The revealed pattern\<close>

lemma hint_phase_done_log:
  "hint_phase L s i = HintDone s1 o1 i1 \<Longrightarrow> Guessed g ev \<notin> set o1"
  by (auto simp: hint_phase_def Let_def split: if_splits list.splits sum.splits)

lemma pattern_ok_hint:
  assumes "pattern_ok s l" and "hint_phase L s i = HintDone s1 o1 i1"
  shows "pattern_ok s1 (l @ o1)"
  using assms(1) hint_phase_done_log [OF assms(2)]
  by (simp add: pattern_ok_def hint_phase_done_fields [OF assms(2)])

lemma reveal_insert_absent:
  "c \<notin> set word \<Longrightarrow> reveal (insert [c] letters) word = reveal letters word"
  by (auto simp: reveal_def)

lemma pattern_ok_guess:
  assumes ok: "pattern_ok s l" and lc: "loop_cond s"
  shows "pattern_ok (fst (apply_guess L s g)) (l @ [Guessed g (snd (apply_guess L s g))])"
proof -
  have nw: "Guessed (secretWord s) CorrectWord \<notin> set l"
    using ok lc by (auto simp: pattern_ok_def loop_cond_def)
  have gw: "guessedWord s = reveal (guessedLetters s) (secretWord s)"
    using ok nw by (simp add: pattern_ok_def)
  have cl: "\<And>c. Guessed [c] CorrectLetter \<in> set l \<longleftrightarrow>
           [c] \<in> guessedLetters s \<and> c \<in> set (secretWord s)"
    using ok by (simp add: pattern_ok_def)
  show ?thesis
  proof (cases "length g = length (secretWord s) \<and> isalpha L g")
    case word: True
    then show ?thesis using nw gw cl
      by (auto simp: pattern_ok_def apply_guess_def)
  next
    case nword: False
    show ?thesis
    proof (cases "length g \<noteq> 1 \<or> \<not> isalpha L g")
      case True
      with nword show ?thesis using nw gw cl
        by (auto simp: pattern_ok_def apply_guess_def)
    next
      case False
      then obtain c where g: "g = [c]" by (cases g) auto
      show ?thesis
      proof (cases "g \<in> guessedLetters s")
        case True
        with nword False show ?thesis using nw gw cl
          by (auto simp: pattern_ok_def apply_guess_def)
      next
        case new: False
        show ?thesis
        proof (cases "c \<in> set (secretWord s)")
          case True
          have "apply_guess L s g =
              (s\<lparr>guessedLetters := insert [c] (guessedLetters s),
                 guessedWord := reveal (insert [c] (guessedLetters s)) (secretWord s),
                 score := score s + 10\<rparr>, CorrectLetter)"
            using nword False new True g
            by (simp add: apply_guess_def str_in_single Let_def reveal_def disj_commute)
          then show ?thesis using nw cl True g
            by (auto simp: pattern_ok_def)
        next
          case absent: False
          have "apply_guess L s g =
              (s\<lparr>guessedLetters := insert [c] (guessedLetters s),
                 lives := lives s - 1, score := score s - 10\<rparr>, WrongLetter)"
            using nword False new absent g
            by (simp add: apply_guess_def str_in_single Let_def)
          then show ?thesis using nw gw cl absent g
            by (auto simp: pattern_ok_def reveal_insert_absent)
        qed
      qed
    qed
  qed
qed

lemma pattern_ok_init: "pattern_ok (init_game word difficulty) []"
  by (simp add: pattern_ok_def init_game_def reveal_def map_replicate_const)

lemma play_pattern_ok:
  assumes "play L (init_game word difficulty) [] ins = Stopped k st log"
  shows "pattern_ok st log"
  by (rule play_invariant [where I = pattern_ok, OF _ _ _ assms])
     (auto intro: pattern_ok_hint pattern_ok_guess pattern_ok_init)

text \<open>An invariant carried from the guess prompt on.\<close>

lemma play_from_guess_invariant:
  assumes hint: "\<And>s l i s1 o1 i1.
      \<lbrakk>I s l; loop_cond s; hint_phase L s i = HintDone s1 o1 i1\<rbrakk> \<Longrightarrow> I s1 (l @ o1)"
    and guess: "\<And>s l g.
      \<lbrakk>I s l; loop_cond s; g \<noteq> lit ''0''\<rbrakk> \<Longrightarrow>
        I (fst (apply_guess L s g)) (l @ [Guessed g (snd (apply_guess L s g))])"
    and start: "I st log" "loop_cond st"
    and run: "play_from_guess L st log ins = Stopped k st' log'"
  shows "I st' log'"
proof (cases rule: guess_phase_cases [where st = st and L = L and ins = ins])
  case gawait
  with run start show ?thesis by (simp add: play_from_guess_def)
next
  case gexit
  with run show ?thesis by (simp add: play_from_guess_def)
next
  case (gbreak x rest)
  have "I (fst (apply_guess L st (lower L x)))
          (log @ [Guessed (lower L x) (snd (apply_guess L st (lower L x)))])"
    using start gbreak(2) by (rule guess)
  with run gbreak show ?thesis by (simp add: play_from_guess_def)
next
  case (gnext x rest)
  have I2: "I (fst (apply_guess L st (lower L x)))
          (log @ [Guessed (lower L x) (snd (apply_guess L st (lower L x)))])"
    using start gnext(2) by (rule guess)
  have r2: "play L (fst (apply_guess L st (lower L x)))
          (log @ [Guessed (lower L x) (snd (apply_guess L st (lower L x)))]) rest
        = Stopped k st' log'"
    using run gnext by (simp add: play_from_guess_def)
  show ?thesis
  proof (rule play_invariant [where I = I and L = L, OF _ _ I2 r2])
    fix s l i s1 o1 i1
    assume "I s l" "loop_cond s" "hint_phase L s i = HintDone s1 o1 i1"
    then show "I s1 (l @ o1)" by (rule hint)
  next
    fix s l g
    assume "I s l" "loop_cond s" "g \<noteq> lit ''0''"
    then show "I (fst (apply_guess L s g)) (l @ [Guessed g (snd (apply_guess L s g))])"
      by (rule guess)
  qed
qed

lemma apply_guess_letters_grow:
  "A \<subseteq> guessedLetters s \<Longrightarrow> A \<subseteq> guessedLetters (fst (apply_guess L s g))"
  by (auto simp: apply_guess_def Let_def)

lemma run_grows:
  assumes "play L st0 log0 ins = Stopped k st log"
    and "play L st0 log0 (ins @ extra) = Stopped k2 st2 log2"
  shows "guessedLetters st \<subseteq> guessedLetters st2 \<and> set log \<subseteq> set log2"
proof -
  let ?I = "\<lambda>s l. guessedLetters st \<subseteq> guessedLetters s \<and> set log \<subseteq> set l"
  have c: "continue_run L (Stopped k st log) extra = Stopped k2 st2 log2"
    using assms by (simp add: play_append)
  show ?thesis
  proof (cases k)
    case Ended
    with c show ?thesis by (simp add: continue_run_def)
  next
    case AwaitHint
    with c have r: "play L st log extra = Stopped k2 st2 log2" by (simp add: continue_run_def)
    have "?I st2 log2"
      by (rule play_invariant [where I = ?I and L = L, OF _ _ _ r])
         (auto simp: hint_phase_done_fields dest: apply_guess_letters_grow)
    then show ?thesis .
  next
    case AwaitGuess
    with c have r: "play_from_guess L st log extra = Stopped k2 st2 log2"
      by (simp add: continue_run_def)
    have lc: "loop_cond st" using assms(1) AwaitGuess play_await_guess by blast
    have "?I st2 log2"
      by (rule play_from_guess_invariant [where I = ?I and L = L, OF _ _ _ lc r])
         (auto simp: hint_phase_done_fields dest: apply_guess_letters_grow)
    then show ?thesis .
  qed
qed

lemma count_reveal_mono:
  "A \<subseteq> B \<Longrightarrow> count_list (reveal B w) (of_char CHR ''_'')
     \<le> count_list (reveal A w) (of_char CHR ''_'')"
  by (induction w) (auto simp: reveal_def)

lemma count_word_reveal:
  "count_list w (of_char CHR ''_'') \<le> count_list (reveal A w) (of_char CHR ''_'')"
  by (induction w) (auto simp: reveal_def)

lemma revealed_mono:
  assumes "pattern_ok s l" "pattern_ok s2 l2" "secretWord s = secretWord s2"
    and "guessedLetters s \<subseteq> guessedLetters s2" "set l \<subseteq> set l2"
  shows "revealed s \<le> revealed s2"
proof (cases "Guessed (secretWord s2) CorrectWord \<in> set l2")
  case True
  then have g2: "guessedWord s2 = secretWord s2" using assms(2) by (simp add: pattern_ok_def)
  have "guessedWord s = secretWord s \<or> guessedWord s = reveal (guessedLetters s) (secretWord s)"
    using assms(1) by (auto simp: pattern_ok_def)
  then have "count_list (secretWord s) (of_char CHR ''_'')
      \<le> count_list (guessedWord s) (of_char CHR ''_'')"
    using count_word_reveal [of "secretWord s" "guessedLetters s"] by auto
  then show ?thesis using assms(3) g2 by (simp add: revealed_def)
next
  case False
  with assms(3,5) have "Guessed (secretWord s) CorrectWord \<notin> set l" by auto
  with False assms(1,2,3) have "guessedWord s = reveal (guessedLetters s) (secretWord s)"
    "guessedWord s2 = reveal (guessedLetters s2) (secretWord s)"
    by (simp_all add: pattern_ok_def)
  then show ?thesis using assms(3) count_reveal_mono [OF assms(4), of "secretWord s"]
    by (simp add: revealed_def)
qed

section \<open>Revealed positions\<close>

text \<open>
  C4. Wherever a round stops, the pattern has the length of the secret word and each
  position holds the true letter or the placeholder. For a secret word without the
  placeholder character (secret words are alphabetic), position \<open>i\<close> holds the true
  letter if and only if that letter was guessed by a correct letter guess or the whole
  word was guessed. When the round goes on with further input, the number of revealed
  positions does not decrease.
\<close>

theorem pattern_reveals:
  assumes "play L (init_game word difficulty) [] ins = Stopped k st log"
  shows "length (guessedWord st) = length word \<and>
         (\<forall>i < length word.
            guessedWord st ! i = word ! i \<or> guessedWord st ! i = of_char CHR ''_'') \<and>
         (of_char CHR ''_'' \<notin> set word \<longrightarrow>
            (\<forall>i < length word.
               guessedWord st ! i = word ! i \<longleftrightarrow>
                 Guessed [word ! i] CorrectLetter \<in> set log \<or>
                 Guessed word CorrectWord \<in> set log)) \<and>
         (\<forall>extra k2 st2 log2.
            play L (init_game word difficulty) [] (ins @ extra) = Stopped k2 st2 log2 \<longrightarrow>
              revealed st \<le> revealed st2)"
proof -
  have ok: "pattern_ok st log" using assms by (rule play_pattern_ok)
  have sw: "secretWord st = word" using play_letters_ok [OF assms] by simp
  have gw: "guessedWord st =
      (if Guessed word CorrectWord \<in> set log then word else reveal (guessedLetters st) word)"
    using ok sw by (simp add: pattern_ok_def)
  have cl: "Guessed [c] CorrectLetter \<in> set log \<longleftrightarrow> [c] \<in> guessedLetters st \<and> c \<in> set word"
    for c
    using ok sw by (simp add: pattern_ok_def)
  have len: "length (guessedWord st) = length word"
    by (simp add: gw reveal_def)
  have pos: "guessedWord st ! i = word ! i \<or> guessedWord st ! i = of_char CHR ''_''"
    if "i < length word" for i
    using that by (simp add: gw reveal_def)
  have iff: "guessedWord st ! i = word ! i \<longleftrightarrow>
                 Guessed [word ! i] CorrectLetter \<in> set log \<or>
                 Guessed word CorrectWord \<in> set log"
    if nu: "of_char CHR ''_'' \<notin> set word" and i: "i < length word" for i
  proof (cases "Guessed word CorrectWord \<in> set log")
    case True
    then show ?thesis by (simp add: gw)
  next
    case False
    have m: "word ! i \<in> set word" using i by simp
    then have ne: "word ! i \<noteq> of_char CHR ''_''" using nu by metis
    have "guessedWord st ! i
        = (if [word ! i] \<in> guessedLetters st then word ! i else of_char CHR ''_'')"
      using False i by (simp add: gw reveal_def)
    then have "guessedWord st ! i = word ! i \<longleftrightarrow> [word ! i] \<in> guessedLetters st"
      using ne by (simp split: if_splits)
    then show ?thesis using False m by (simp add: cl)
  qed
  have mono: "revealed st \<le> revealed st2"
    if r2: "play L (init_game word difficulty) [] (ins @ extra) = Stopped k2 st2 log2"
    for extra k2 st2 log2
  proof -
    have ok2: "pattern_ok st2 log2" using r2 by (rule play_pattern_ok)
    have sw2: "secretWord st2 = word" using play_letters_ok [OF r2] by simp
    have g: "guessedLetters st \<subseteq> guessedLetters st2" "set log \<subseteq> set log2"
      using run_grows [OF assms r2] by simp_all
    show ?thesis using ok ok2 _ g by (rule revealed_mono) (simp add: sw sw2)
  qed
  show ?thesis
  proof (intro conjI allI impI)
    show "length (guessedWord st) = length word" by (rule len)
    show "guessedWord st ! i = word ! i \<or> guessedWord st ! i = of_char CHR ''_''"
      if "i < length word" for i
      using that by (rule pos)
    show "guessedWord st ! i = word ! i \<longleftrightarrow>
                 Guessed [word ! i] CorrectLetter \<in> set log \<or>
                 Guessed word CorrectWord \<in> set log"
      if "of_char CHR ''_'' \<notin> set word" "i < length word" for i
      using that by (rule iff)
    show "revealed st \<le> revealed st2"
      if "play L (init_game word difficulty) [] (ins @ extra) = Stopped k2 st2 log2"
      for extra k2 st2 log2
      using that by (rule mono)
  qed
qed

theorem pattern_reveals_witness:
  "play (ascii_library failing_provider) (init_game (lit ''cat'') (lit ''hard'')) []
       [lit ''c'', lit ''z'']
     = Stopped AwaitGuess
         ((init_game (lit ''cat'') (lit ''hard''))
            \<lparr>guessedWord := lit ''c__'', lives := 2,
             guessedLetters := {lit ''z'', lit ''c''}, score := 100\<rparr>)
         [Guessed (lit ''c'') CorrectLetter, Guessed (lit ''z'') WrongLetter] \<and>
   play (ascii_library failing_provider) (init_game (lit ''cat'') (lit ''hard'')) []
       [lit ''c'', lit ''z'', lit ''a'']
     = Stopped AwaitGuess
         ((init_game (lit ''cat'') (lit ''hard''))
            \<lparr>guessedWord := lit ''ca_'', lives := 2,
             guessedLetters := {lit ''a'', lit ''z'', lit ''c''}, score := 110\<rparr>)
         [Guessed (lit ''c'') CorrectLetter, Guessed (lit ''z'') WrongLetter,
          Guessed (lit ''a'') CorrectLetter] \<and>
   lit ''c__'' ! 0 = lit ''cat'' ! 0 \<and>
   lit ''c__'' ! 1 \<noteq> lit ''cat'' ! 1 \<and>
   revealed ((init_game (lit ''cat'') (lit ''hard''))
            \<lparr>guessedWord := lit ''c__'', lives := 2,
             guessedLetters := {lit ''z'', lit ''c''}, score := 100\<rparr>) = 1 \<and>
   revealed ((init_game (lit ''cat'') (lit ''hard''))
            \<lparr>guessedWord := lit ''ca_'', lives := 2,
             guessedLetters := {lit ''a'', lit ''z'', lit ''c''}, score := 110\<rparr>) = 2 \<and>
   revealed ((init_game (lit ''cat'') (lit ''hard''))
            \<lparr>guessedWord := lit ''c__'', lives := 2,
             guessedLetters := {lit ''z'', lit ''c''}, score := 100\<rparr>)
     \<le> revealed ((init_game (lit ''cat'') (lit ''hard''))
            \<lparr>guessedWord := lit ''ca_'', lives := 2,
             guessedLetters := {lit ''a'', lit ''z'', lit ''c''}, score := 110\<rparr>)"
proof -
  let ?L = "ascii_library failing_provider"
  let ?i = "init_game (lit ''cat'') (lit ''hard'')"
  let ?s1 = "(init_game (lit ''cat'') (lit ''hard''))
            \<lparr>guessedWord := lit ''c__'', lives := 2,
             guessedLetters := {lit ''z'', lit ''c''}, score := 100\<rparr>"
  let ?l1 = "[Guessed (lit ''c'') CorrectLetter, Guessed (lit ''z'') WrongLetter]"
  let ?s2 = "(init_game (lit ''cat'') (lit ''hard''))
            \<lparr>guessedWord := lit ''ca_'', lives := 2,
             guessedLetters := {lit ''a'', lit ''z'', lit ''c''}, score := 110\<rparr>"
  let ?l2 = "[Guessed (lit ''c'') CorrectLetter, Guessed (lit ''z'') WrongLetter,
          Guessed (lit ''a'') CorrectLetter]"
  have r1: "play ?L ?i [] [lit ''c'', lit ''z''] = Stopped AwaitGuess ?s1 ?l1"
    by (simp add: play.simps eval_defs)
  have r2: "play ?L ?i [] [lit ''c'', lit ''z'', lit ''a''] = Stopped AwaitGuess ?s2 ?l2"
    by (simp add: play.simps eval_defs)
  have r2': "play ?L ?i [] ([lit ''c'', lit ''z''] @ [lit ''a'']) = Stopped AwaitGuess ?s2 ?l2"
    using r2 by simp
  have nu: "of_char CHR ''_'' \<notin> set (lit ''cat'')" by (simp add: lit_def)
  have i0: "0 < length (lit ''cat'')" and i1: "1 < length (lit ''cat'')"
    by (simp_all add: lit_def)
  have m0: "Guessed [lit ''cat'' ! 0] CorrectLetter \<in> set ?l1 \<or>
            Guessed (lit ''cat'') CorrectWord \<in> set ?l1"
    by (simp add: lit_def)
  have m1: "\<not> (Guessed [lit ''cat'' ! 1] CorrectLetter \<in> set ?l1 \<or>
            Guessed (lit ''cat'') CorrectWord \<in> set ?l1)"
    by (simp add: lit_def)
  note t = pattern_reveals [OF r1]
  note q = t [THEN conjunct2, THEN conjunct2, THEN conjunct1, THEN mp, OF nu]
  have p0: "guessedWord ?s1 ! 0 = lit ''cat'' ! 0"
    using q [THEN spec, of 0, THEN mp, OF i0] m0 by (rule iffD2)
  have p1: "guessedWord ?s1 ! 1 \<noteq> lit ''cat'' ! 1"
    using q [THEN spec, of 1, THEN mp, OF i1] m1 by simp
  have mono: "revealed ?s1 \<le> revealed ?s2"
    by (rule t [THEN conjunct2, THEN conjunct2, THEN conjunct2, THEN spec, THEN spec,
          THEN spec, THEN spec, THEN mp, OF r2'])
  have v1: "revealed ?s1 = 1" and v2: "revealed ?s2 = 2"
    by (simp_all add: revealed_def init_game_def lit_def)
  have g1: "guessedWord ?s1 = lit ''c__''" by simp
  from r1 r2 p0 p1 v1 v2 mono show ?thesis unfolding g1 by (intro conjI)
qed

end
